theory Spec2Isabelle
  imports Complex_Main "HOL-Library.Product_Lexorder" "HOL-Library.List_Lexorder"
    "HOL-Library.Char_ord"
begin

section \<open>Data model\<close>

text \<open>
  The scripts work on pandas tables. A table is modelled as the list of its rows, in the
  order the frame holds them; a column that is added to a frame extends the row record.
  A float cell is a \<open>real option\<close>: \<open>None\<close> is NaN (the missing marker), \<open>Some x\<close> a
  number, idealised as a real. A month-end timestamp is the triple (year, month, day),
  ordered lexicographically, as timestamps are. The index of the price tables is the pair
  (date, ticker).

  The embedding starts at the table that \<open>resample('ME').last()\<close> leaves in
  \<open>prices_monthly\<close> (line 23 of preprocessing.py): one row per ticker and month, the price
  missing in a month without observation. The columns other than date, ticker and price
  that the input file may carry are kept in \<open>extra\<close>, because the last \<open>dropna()\<close> looks
  at every column.
\<close>

type_synonym date = "nat \<times> nat \<times> nat"

type_synonym index_key = "date \<times> string"

record price_row =
  date :: date
  ticker :: string
  price :: "real option"
  extra :: "real option list"

record monthly_row = price_row +
  monthly_past_return :: "real option"
  monthly_future_return :: "real option"

record signal_row = monthly_row +
  average_return_1y :: "real option"
  signal :: bool

definition index_of :: "'a price_row_scheme \<Rightarrow> index_key" where
  "index_of r = (date r, ticker r)"

section \<open>preprocessing.py: \<open>preprocess_prices\<close>\<close>

text \<open>Lines 26-27: keep the rows whose price lies in [0.1, 10000]; a comparison with NaN
  is false, so a row without price goes too.\<close>

definition price_in_range :: "real option \<Rightarrow> bool" where
  "price_in_range v = (case v of None \<Rightarrow> False | Some p \<Rightarrow> 0.1 \<le> p \<and> p \<le> 10000)"

definition filter_price_outliers :: "price_row list \<Rightarrow> price_row list" where
  "filter_price_outliers t = filter (\<lambda>r. price_in_range (price r)) t"

text \<open>Line 30: \<open>sort_index()\<close> orders the rows by (date, ticker).\<close>

definition sort_index :: "price_row list \<Rightarrow> price_row list" where
  "sort_index t = sort_key index_of t"

text \<open>
  Line 33: \<open>groupby('ticker')['price'].pct_change()\<close>. The result has one cell per row,
  in the order of the frame: the price over the previous price of the same ticker, minus
  one; NaN at the first row of a ticker. \<open>prev\<close> holds, per ticker, the price of its
  latest row so far. (Every price that reaches this place has passed the filter above, so
  it is present and at least 0.1: neither the fill method of \<open>pct_change\<close> nor a division
  by zero can occur.)
\<close>

definition pct :: "real option \<Rightarrow> real option \<Rightarrow> real option" where
  "pct cur old = (case (cur, old) of (Some p, Some q) \<Rightarrow> Some (p / q - 1) | _ \<Rightarrow> None)"

fun groupby_pct_change :: "(string \<rightharpoonup> real option) \<Rightarrow> (string \<times> real option) list \<Rightarrow> real option list" where
  "groupby_pct_change prev [] = []"
| "groupby_pct_change prev ((k, p) # rest) =
     (case prev k of None \<Rightarrow> None | Some q \<Rightarrow> pct p q) # groupby_pct_change (prev(k \<mapsto> p)) rest"

text \<open>Line 36: \<open>.shift(-1)\<close> is called on the Series that \<open>pct_change\<close> returned, not on
  the groupby: every cell moves up one row of the whole frame, the last cell becomes NaN.\<close>

definition shift_minus_1 :: "real option list \<Rightarrow> real option list" where
  "shift_minus_1 xs = (case xs of [] \<Rightarrow> [] | x # ys \<Rightarrow> ys @ [None])"

definition past_returns :: "price_row list \<Rightarrow> real option list" where
  "past_returns t = groupby_pct_change Map.empty (map (\<lambda>r. (ticker r, price r)) t)"

definition future_returns :: "price_row list \<Rightarrow> real option list" where
  "future_returns t = shift_minus_1 (groupby_pct_change Map.empty (map (\<lambda>r. (ticker r, price r)) t))"

definition add_returns :: "price_row list \<Rightarrow> monthly_row list" where
  "add_returns t =
     map (\<lambda>(r, p, f). price_row.extend r (monthly_row.fields p f))
       (zip t (zip (past_returns t) (future_returns t)))"

text \<open>Lines 39-61: the loop over the tickers. \<open>unique()\<close> lists them in order of first
  appearance. An assignment \<open>.loc[idx, column] = NaN\<close> goes by index label: it reaches
  every row whose (date, ticker) is among the labels.\<close>

definition unique :: "'a list \<Rightarrow> 'a list" where
  "unique xs = rev (remdups (rev xs))"

definition crisis_mask :: "date \<Rightarrow> bool" where
  "crisis_mask d = ((2008, 1, 1) \<le> d \<and> d \<le> (2009, 12, 31))"

definition is_outlier :: "real option \<Rightarrow> bool" where
  "is_outlier v = (case v of None \<Rightarrow> False | Some x \<Rightarrow> x > 1 \<or> x < - 0.5)"

definition loc_set_past_nan :: "index_key list \<Rightarrow> monthly_row list \<Rightarrow> monthly_row list" where
  "loc_set_past_nan idx t =
     map (\<lambda>r. if index_of r \<in> set idx then r\<lparr>monthly_past_return := None\<rparr> else r) t"

definition loc_set_future_nan :: "index_key list \<Rightarrow> monthly_row list \<Rightarrow> monthly_row list" where
  "loc_set_future_nan idx t =
     map (\<lambda>r. if index_of r \<in> set idx then r\<lparr>monthly_future_return := None\<rparr> else r) t"

definition suppress_ticker :: "string \<Rightarrow> monthly_row list \<Rightarrow> monthly_row list" where
  "suppress_ticker k prices_monthly =
     (let ticker_data = filter (\<lambda>r. ticker r = k) prices_monthly;
          non_crisis_data = filter (\<lambda>r. \<not> crisis_mask (date r)) ticker_data;
          outliers_past = filter (\<lambda>r. is_outlier (monthly_past_return r)) non_crisis_data;
          t1 = (if length non_crisis_data > 0 \<and> outliers_past \<noteq> []
                then loc_set_past_nan (map index_of outliers_past) prices_monthly
                else prices_monthly);
          outliers_future = filter (\<lambda>r. is_outlier (monthly_future_return r)) non_crisis_data
      in if length non_crisis_data > 0 \<and> outliers_future \<noteq> []
         then loc_set_future_nan (map index_of outliers_future) t1
         else t1)"

definition suppress_outliers :: "monthly_row list \<Rightarrow> monthly_row list" where
  "suppress_outliers t = fold suppress_ticker (unique (map ticker t)) t"

text \<open>Lines 64-65: \<open>groupby('ticker')[column].ffill()\<close>: a missing cell takes the latest
  present value of the same ticker, if there is one. \<open>seen\<close> holds that value per ticker.\<close>

fun groupby_ffill :: "(string \<rightharpoonup> real) \<Rightarrow> (string \<times> real option) list \<Rightarrow> real option list" where
  "groupby_ffill seen [] = []"
| "groupby_ffill seen ((k, v) # rest) =
     (case v of
        Some x \<Rightarrow> Some x # groupby_ffill (seen(k \<mapsto> x)) rest
      | None \<Rightarrow> seen k # groupby_ffill seen rest)"

definition ffill_price :: "monthly_row list \<Rightarrow> monthly_row list" where
  "ffill_price t =
     map (\<lambda>(r, v). r\<lparr>price := v\<rparr>)
       (zip t (groupby_ffill Map.empty (map (\<lambda>r. (ticker r, price r)) t)))"

definition ffill_past_return :: "monthly_row list \<Rightarrow> monthly_row list" where
  "ffill_past_return t =
     map (\<lambda>(r, v). r\<lparr>monthly_past_return := v\<rparr>)
       (zip t (groupby_ffill Map.empty (map (\<lambda>r. (ticker r, monthly_past_return r)) t)))"

text \<open>Line 68: \<open>dropna(subset=['monthly_future_return'])\<close>; line 71: \<open>dropna()\<close>, which
  looks at every column.\<close>

definition notna :: "real option \<Rightarrow> bool" where
  "notna v = (case v of None \<Rightarrow> False | Some x \<Rightarrow> True)"

definition dropna_future :: "monthly_row list \<Rightarrow> monthly_row list" where
  "dropna_future t = filter (\<lambda>r. notna (monthly_future_return r)) t"

definition no_missing :: "monthly_row \<Rightarrow> bool" where
  "no_missing r =
     (notna (price r) \<and> list_all notna (extra r) \<and>
      notna (monthly_past_return r) \<and> notna (monthly_future_return r))"

definition dropna :: "monthly_row list \<Rightarrow> monthly_row list" where
  "dropna t = filter no_missing t"

text \<open>The function, with names for the table after line 36 (returns computed), after
  line 61 (outliers suppressed) and after line 65 (forward-filled).\<close>

definition returns_table :: "price_row list \<Rightarrow> monthly_row list" where
  "returns_table prices_monthly = add_returns (sort_index (filter_price_outliers prices_monthly))"

definition suppressed_table :: "price_row list \<Rightarrow> monthly_row list" where
  "suppressed_table prices_monthly = suppress_outliers (returns_table prices_monthly)"

definition filled_table :: "price_row list \<Rightarrow> monthly_row list" where
  "filled_table prices_monthly = ffill_past_return (ffill_price (suppressed_table prices_monthly))"

definition preprocess_prices :: "price_row list \<Rightarrow> monthly_row list" where
  "preprocess_prices prices_monthly = dropna (dropna_future (filled_table prices_monthly))"

text \<open>The series of one ticker inside a table: its rows, in the order of the table.\<close>

definition series_of :: "string \<Rightarrow> 'a price_row_scheme list \<Rightarrow> 'a price_row_scheme list" where
  "series_of k t = filter (\<lambda>r. ticker r = k) t"

section \<open>create\_signal.py\<close>

text \<open>Lines 15-16: the rolling mean of \<open>monthly_past_return\<close> per ticker, over the current
  row and up to 11 rows of the ticker before it, with \<open>min_periods=1\<close>: the mean of the
  present values of the window, NaN when there is none. \<open>hist\<close> holds per ticker its
  latest cells, newest first.\<close>

definition nanmean :: "real option list \<Rightarrow> real option" where
  "nanmean w =
     (let xs = concat (map (\<lambda>v. case v of None \<Rightarrow> [] | Some x \<Rightarrow> [x]) w)
      in if length xs \<ge> 1 then Some (sum_list xs / real (length xs)) else None)"

fun groupby_rolling_mean :: "(string \<Rightarrow> real option list) \<Rightarrow> (string \<times> real option) list \<Rightarrow> real option list" where
  "groupby_rolling_mean hist [] = []"
| "groupby_rolling_mean hist ((k, v) # rest) =
     (let w = take 12 (v # hist k) in nanmean w # groupby_rolling_mean (hist(k := w)) rest)"

definition add_average_return_1y :: "monthly_row list \<Rightarrow> (monthly_row \<times> real option) list" where
  "add_average_return_1y t =
     zip t (groupby_rolling_mean (\<lambda>k. []) (map (\<lambda>r. (ticker r, monthly_past_return r)) t))"

text \<open>Line 25: \<open>Series.nlargest(20)\<close> drops the missing cells and returns the 20 largest
  in descending order, of equal values the one that comes first in the series first
  (\<open>keep='first'\<close>); \<open>.index\<close> are their labels.\<close>

definition nlargest_index :: "nat \<Rightarrow> (index_key \<times> real option) list \<Rightarrow> index_key list" where
  "nlargest_index n s =
     map fst (take n (sort_key (\<lambda>(k, x). - x)
       (concat (map (\<lambda>(k, v). case v of None \<Rightarrow> [] | Some x \<Rightarrow> [(k, x)]) s))))"

definition get_top_20_signal :: "(monthly_row \<times> real option) list \<Rightarrow> signal_row list" where
  "get_top_20_signal grp =
     (if length grp < 20
      then map (\<lambda>(r, a). monthly_row.extend r (signal_row.fields a True)) grp
      else
        (let top_20_idx = nlargest_index 20 (map (\<lambda>(r, a). (index_of r, a)) grp)
         in map (\<lambda>(r, a). monthly_row.extend r (signal_row.fields a (index_of r \<in> set top_20_idx))) grp))"

text \<open>Line 31: \<open>groupby('date').apply(get_top_20_signal)\<close>: one group per date, the dates
  ascending, the results put one after the other.\<close>

definition group_dates :: "'a price_row_scheme list \<Rightarrow> date list" where
  "group_dates t = sort (remdups (map date t))"

definition create_signal :: "monthly_row list \<Rightarrow> signal_row list" where
  "create_signal prices_df =
     (let with_avg = add_average_return_1y prices_df
      in concat (map (\<lambda>d. get_top_20_signal (filter (\<lambda>(r, a). date r = d) with_avg))
           (group_dates prices_df)))"

section \<open>backtester.py\<close>

text \<open>A Series indexed by date is a list of (date, value) pairs. \<open>sum()\<close> skips NaN.\<close>

datatype error = IndexError

definition pnl :: "signal_row \<Rightarrow> real option" where
  "pnl r = (case monthly_future_return r of None \<Rightarrow> None
            | Some f \<Rightarrow> Some ((if signal r then 1 else 0) * f))"

definition nansum :: "real option list \<Rightarrow> real" where
  "nansum vs = sum_list (concat (map (\<lambda>v. case v of None \<Rightarrow> [] | Some x \<Rightarrow> [x]) vs))"

definition strategy_pnl_series :: "signal_row list \<Rightarrow> (date \<times> real) list" where
  "strategy_pnl_series t =
     map (\<lambda>d. (d, nansum (map pnl (filter (\<lambda>r. date r = d) t)))) (group_dates t)"

definition signal_sum :: "signal_row list \<Rightarrow> (date \<times> nat) list" where
  "signal_sum t =
     map (\<lambda>d. (d, length (filter signal (filter (\<lambda>r. date r = d) t)))) (group_dates t)"

text \<open>Line 22: the float division of two Series with the same index; 0/0 is NaN (the sum
  of the PnL of a month without selected ticker is 0).\<close>

definition strategy_returns :: "signal_row list \<Rightarrow> (date \<times> real option) list" where
  "strategy_returns t =
     map (\<lambda>((d, p), (d', n)). (d, if n = 0 then None else Some (p / real n)))
       (zip (strategy_pnl_series t) (signal_sum t))"

text \<open>Lines 25-27: the benchmark. \<open>sp500_df\<close> is given by its date index and its column
  \<open>monthly_return\<close>.\<close>

definition benchmark_returns :: "(date \<times> real option) list \<Rightarrow> (date \<times> real) list" where
  "benchmark_returns sp500_df =
     concat (map (\<lambda>(d, v). case v of None \<Rightarrow> [] | Some x \<Rightarrow> [(d, x)]) sp500_df)"

definition sp500_signal :: "(date \<times> real) list \<Rightarrow> (date \<times> real) list" where
  "sp500_signal rets = map (\<lambda>(d, x). (d, 20)) rets"

definition benchmark_pnl_series :: "(date \<times> real option) list \<Rightarrow> (date \<times> real) list" where
  "benchmark_pnl_series sp500_df =
     map (\<lambda>((d, s), (d', x)). (d, s * x))
       (zip (sp500_signal (benchmark_returns sp500_df)) (benchmark_returns sp500_df))"

text \<open>Lines 30-34: the dates of both indexes, and \<open>.loc[common_dates]\<close>, which reads the
  rows of each label in turn.\<close>

definition common_dates :: "signal_row list \<Rightarrow> (date \<times> real option) list \<Rightarrow> date list" where
  "common_dates t sp500_df =
     filter (\<lambda>d. d \<in> set (map fst (benchmark_returns sp500_df))) (map fst (strategy_returns t))"

definition loc :: "date list \<Rightarrow> (date \<times> 'a) list \<Rightarrow> (date \<times> 'a) list" where
  "loc ds s = concat (map (\<lambda>d. filter (\<lambda>(d', v). d' = d) s) ds)"

text \<open>Lines 37-46: \<open>cumsum()\<close> and \<open>.iloc[-1]\<close>, which raises on an empty Series.\<close>

fun cumsum_from :: "real \<Rightarrow> real list \<Rightarrow> real list" where
  "cumsum_from acc [] = []"
| "cumsum_from acc (x # xs) = (acc + x) # cumsum_from (acc + x) xs"

definition cumsum :: "real list \<Rightarrow> real list" where
  "cumsum xs = cumsum_from 0 xs"

definition iloc_last :: "'a list \<Rightarrow> error + 'a" where
  "iloc_last xs = (if xs = [] then Inl IndexError else Inr (last xs))"

record results =
  strategy_total_return :: real
  strategy_total_pnl :: real
  benchmark_total_return :: real
  benchmark_total_pnl :: real
  outperformance_percent :: real
  strategy_cumulative_pnl :: "real list"
  benchmark_cumulative_pnl :: "real list"

definition backtest :: "signal_row list \<Rightarrow> (date \<times> real option) list \<Rightarrow> error + results" where
  "backtest prices_df sp500_df =
     (let common = common_dates prices_df sp500_df;
          strategy_rets = loc common (strategy_returns prices_df);
          strategy_pnl = loc common (strategy_pnl_series prices_df);
          benchmark_rets = loc common (benchmark_returns sp500_df);
          benchmark_pnl = loc common (benchmark_pnl_series sp500_df);
          strategy_cum = cumsum (map snd strategy_pnl);
          benchmark_cum = cumsum (map snd benchmark_pnl);
          strategy_total = nansum (map snd strategy_rets);
          benchmark_total = sum_list (map snd benchmark_rets)
      in case iloc_last strategy_cum of
           Inl e \<Rightarrow> Inl e
         | Inr s_pnl \<Rightarrow>
             (case iloc_last benchmark_cum of
                Inl e \<Rightarrow> Inl e
              | Inr b_pnl \<Rightarrow>
                  Inr \<lparr>strategy_total_return = strategy_total,
                       strategy_total_pnl = s_pnl,
                       benchmark_total_return = benchmark_total,
                       benchmark_total_pnl = b_pnl,
                       outperformance_percent = (strategy_total - benchmark_total) * 100,
                       strategy_cumulative_pnl = strategy_cum,
                       benchmark_cumulative_pnl = benchmark_cum\<rparr>))"

section \<open>Reference functions on one series\<close>

text \<open>\<open>Series.pct_change()\<close> on the prices of one ticker alone: the first cell has no
  predecessor (\<open>prev = None\<close>), every later cell compares with the cell before it.\<close>

fun series_pct_change :: "real option option \<Rightarrow> real option list \<Rightarrow> real option list" where
  "series_pct_change prev [] = []"
| "series_pct_change prev (p # ps) =
     (case prev of None \<Rightarrow> None | Some q \<Rightarrow> pct p q) # series_pct_change (Some p) ps"

text \<open>\<open>Series.ffill()\<close> on one series alone: a missing cell takes the latest present
  value before it; \<open>carried\<close> is that value, \<open>None\<close> while there is none.\<close>

fun series_ffill :: "real option \<Rightarrow> real option list \<Rightarrow> real option list" where
  "series_ffill carried [] = []"
| "series_ffill carried (v # vs) =
     (case v of Some x \<Rightarrow> Some x # series_ffill (Some x) vs
      | None \<Rightarrow> carried # series_ffill carried vs)"

text \<open>The bounds of the suppression rule, for a cell that may be missing.\<close>

definition within_bounds :: "real option \<Rightarrow> bool" where
  "within_bounds v = (case v of None \<Rightarrow> True | Some x \<Rightarrow> - 0.5 \<le> x \<and> x \<le> 1)"

text \<open>What the suppression loop may do to a row: nothing but replace its trailing or its
  forward return by NaN, and this only in a row outside the crisis window.\<close>

definition nulled_outside_crisis :: "monthly_row \<Rightarrow> monthly_row \<Rightarrow> bool" where
  "nulled_outside_crisis r r' =
     (\<exists>a b. r' = r\<lparr>monthly_past_return := a, monthly_future_return := b\<rparr> \<and>
        (a = monthly_past_return r \<or> (a = None \<and> \<not> crisis_mask (date r))) \<and>
        (b = monthly_future_return r \<or> (b = None \<and> \<not> crisis_mask (date r))))"

definition bounded_outside_crisis :: "monthly_row \<Rightarrow> bool" where
  "bounded_outside_crisis r =
     (crisis_mask (date r) \<or>
      (within_bounds (monthly_past_return r) \<and> within_bounds (monthly_future_return r)))"

text \<open>The rows of one month, each with its rolling average, as \<open>groupby('date')\<close> hands
  them to \<open>get_top_20_signal\<close>, and the flag the function gives a row of the group.\<close>

definition month_group :: "date \<Rightarrow> monthly_row list \<Rightarrow> (monthly_row \<times> real option) list" where
  "month_group d t = filter (\<lambda>x. date (fst x) = d) (add_average_return_1y t)"

definition selected :: "(monthly_row \<times> real option) list \<Rightarrow> monthly_row \<Rightarrow> bool" where
  "selected grp r =
     (length grp < 20 \<or>
      index_of r \<in> set (nlargest_index 20 (map (\<lambda>(r, a). (index_of r, a)) grp)))"

text \<open>The window of the 12-month rolling mean at row \<open>i\<close> of a table: the trailing
  returns of the up to 12 latest rows of the ticker of row \<open>i\<close>, ending at row \<open>i\<close>, newest
  first.\<close>

definition trailing_window :: "monthly_row list \<Rightarrow> nat \<Rightarrow> real option list" where
  "trailing_window t i =
     take 12 (rev (map monthly_past_return (series_of (ticker (t ! i)) (take (Suc i) t))))"

text \<open>The months of the aligned window: the dates present in both the strategy
  series and the benchmark series.\<close>

definition common_months :: "signal_row list \<Rightarrow> (date \<times> real option) list \<Rightarrow> date set" where
  "common_months t sp = fst ` set (strategy_returns t) \<inter> fst ` set (benchmark_returns sp)"

section \<open>Example tables\<close>

definition table_one_ticker :: "price_row list" where
  "table_one_ticker =
     [\<lparr>date = (2010, 1, 31), ticker = ''A'', price = Some 10, extra = []\<rparr>,
      \<lparr>date = (2010, 2, 28), ticker = ''A'', price = Some 11, extra = []\<rparr>,
      \<lparr>date = (2010, 3, 31), ticker = ''A'', price = Some 9, extra = []\<rparr>]"

definition table_two_tickers :: "price_row list" where
  "table_two_tickers =
     [\<lparr>date = (2010, 1, 31), ticker = ''A'', price = Some 10, extra = []\<rparr>,
      \<lparr>date = (2010, 2, 28), ticker = ''A'', price = Some 11, extra = []\<rparr>,
      \<lparr>date = (2010, 1, 31), ticker = ''B'', price = Some 100, extra = []\<rparr>,
      \<lparr>date = (2010, 2, 28), ticker = ''B'', price = Some 90, extra = []\<rparr>]"

definition table_crisis_carry :: "price_row list" where
  "table_crisis_carry =
     [\<lparr>date = (2009, 11, 30), ticker = ''A'', price = Some 10, extra = []\<rparr>,
      \<lparr>date = (2009, 12, 31), ticker = ''A'', price = Some 25, extra = []\<rparr>,
      \<lparr>date = (2010, 1, 31), ticker = ''A'', price = Some 75, extra = []\<rparr>,
      \<lparr>date = (2010, 2, 28), ticker = ''A'', price = Some 80, extra = []\<rparr>]"

text \<open>A preprocessed table with the same 21 tickers in January and in February 2015:
  in February T01 has the lowest trailing return, T02 the lowest 12-month average.\<close>

definition row_of :: "date \<Rightarrow> string \<Rightarrow> real \<Rightarrow> monthly_row" where
  "row_of d k x =
     \<lparr>date = d, ticker = k, price = Some 10, extra = [],
      monthly_past_return = Some x, monthly_future_return = Some (x / 2)\<rparr>"

definition table_two_months :: "monthly_row list" where
  "table_two_months =
     [row_of (2015, 1, 31) ''T01'' (1 / 20),
      row_of (2015, 1, 31) ''T02'' (0),
      row_of (2015, 1, 31) ''T03'' (13 / 100),
      row_of (2015, 1, 31) ''T04'' (7 / 50),
      row_of (2015, 1, 31) ''T05'' (3 / 20),
      row_of (2015, 1, 31) ''T06'' (4 / 25),
      row_of (2015, 1, 31) ''T07'' (17 / 100),
      row_of (2015, 1, 31) ''T08'' (9 / 50),
      row_of (2015, 1, 31) ''T09'' (19 / 100),
      row_of (2015, 1, 31) ''T10'' (1 / 5),
      row_of (2015, 1, 31) ''T11'' (21 / 100),
      row_of (2015, 1, 31) ''T12'' (11 / 50),
      row_of (2015, 1, 31) ''T13'' (23 / 100),
      row_of (2015, 1, 31) ''T14'' (6 / 25),
      row_of (2015, 1, 31) ''T15'' (1 / 4),
      row_of (2015, 1, 31) ''T16'' (13 / 50),
      row_of (2015, 1, 31) ''T17'' (27 / 100),
      row_of (2015, 1, 31) ''T18'' (7 / 25),
      row_of (2015, 1, 31) ''T19'' (29 / 100),
      row_of (2015, 1, 31) ''T20'' (3 / 10),
      row_of (2015, 1, 31) ''T21'' (31 / 100),
      row_of (2015, 2, 28) ''T01'' (1 / 100),
      row_of (2015, 2, 28) ''T02'' (1 / 50),
      row_of (2015, 2, 28) ''T03'' (13 / 100),
      row_of (2015, 2, 28) ''T04'' (7 / 50),
      row_of (2015, 2, 28) ''T05'' (3 / 20),
      row_of (2015, 2, 28) ''T06'' (4 / 25),
      row_of (2015, 2, 28) ''T07'' (17 / 100),
      row_of (2015, 2, 28) ''T08'' (9 / 50),
      row_of (2015, 2, 28) ''T09'' (19 / 100),
      row_of (2015, 2, 28) ''T10'' (1 / 5),
      row_of (2015, 2, 28) ''T11'' (21 / 100),
      row_of (2015, 2, 28) ''T12'' (11 / 50),
      row_of (2015, 2, 28) ''T13'' (23 / 100),
      row_of (2015, 2, 28) ''T14'' (6 / 25),
      row_of (2015, 2, 28) ''T15'' (1 / 4),
      row_of (2015, 2, 28) ''T16'' (13 / 50),
      row_of (2015, 2, 28) ''T17'' (27 / 100),
      row_of (2015, 2, 28) ''T18'' (7 / 25),
      row_of (2015, 2, 28) ''T19'' (29 / 100),
      row_of (2015, 2, 28) ''T20'' (3 / 10),
      row_of (2015, 2, 28) ''T21'' (31 / 100)]"

text \<open>A ticker with three month-end prices before 2008.\<close>

definition table_2007 :: "price_row list" where
  "table_2007 =
     [\<lparr>date = (2007, 10, 31), ticker = ''A'', price = Some 10, extra = []\<rparr>,
      \<lparr>date = (2007, 11, 30), ticker = ''A'', price = Some 11, extra = []\<rparr>,
      \<lparr>date = (2007, 12, 31), ticker = ''A'', price = Some 12, extra = []\<rparr>]"

text \<open>A signalled table of three months and a benchmark table: the months of January
  and February 2020 are in both; one benchmark return is missing.\<close>

definition signalled :: "date \<Rightarrow> string \<Rightarrow> real \<Rightarrow> bool \<Rightarrow> signal_row" where
  "signalled d k x b =
     \<lparr>date = d, ticker = k, price = Some 10, extra = [],
      monthly_past_return = Some 0, monthly_future_return = Some x,
      average_return_1y = Some 0, signal = b\<rparr>"

definition table_signalled :: "signal_row list" where
  "table_signalled =
     [signalled (2020, 1, 31) ''A'' (1 / 10) True,
      signalled (2020, 1, 31) ''B'' (- (1 / 5)) False,
      signalled (2020, 2, 29) ''A'' (1 / 25) True,
      signalled (2020, 2, 29) ''B'' (1 / 50) True,
      signalled (2020, 3, 31) ''A'' (3 / 100) True]"

definition table_sp500 :: "(date \<times> real option) list" where
  "table_sp500 =
     [((2019, 12, 31), None),
      ((2020, 1, 31), Some (1 / 50)),
      ((2020, 2, 29), Some (- (1 / 100))),
      ((2020, 4, 30), Some (1 / 20))]"

section \<open>Return computation\<close>

lemmas eval_returns = returns_table_def add_returns_def sort_index_def filter_price_outliers_def
  price_in_range_def index_of_def past_returns_def future_returns_def shift_minus_1_def pct_def
  price_row.defs monthly_row.defs series_of_def

lemma length_groupby_pct_change [simp]: "length (groupby_pct_change prev xs) = length xs"
  by (induction xs arbitrary: prev) auto

lemma length_shift_minus_1 [simp]: "length (shift_minus_1 xs) = length xs"
  by (cases xs) (auto simp: shift_minus_1_def)

lemma length_past_returns [simp]: "length (past_returns t) = length t"
  by (simp add: past_returns_def)

lemma length_future_returns [simp]: "length (future_returns t) = length t"
  by (simp add: future_returns_def)

lemma length_add_returns [simp]: "length (add_returns t) = length t"
  by (simp add: add_returns_def)

lemma add_returns_nth:
  assumes "i < length t"
  shows "add_returns t ! i = price_row.extend (t ! i) (monthly_row.fields (past_returns t ! i) (future_returns t ! i))"
  using assms by (simp add: add_returns_def)

lemma groupby_pct_change_series:
  "length fs = length t \<Longrightarrow>
   map (\<lambda>x. fst (snd x)) (filter (\<lambda>x. ticker (fst x) = k)
      (zip t (zip (groupby_pct_change prev (map (\<lambda>r. (ticker r, price r)) t)) fs)))
   = series_pct_change (prev k) (map price (filter (\<lambda>r. ticker r = k) t))"
proof (induction t arbitrary: prev fs)
  case Nil
  then show ?case by simp
next
  case (Cons r t)
  then obtain f fs' where fs: "fs = f # fs'" "length fs' = length t"
    by (cases fs) auto
  have IH: "map (\<lambda>x. fst (snd x)) (filter (\<lambda>x. ticker (fst x) = k)
      (zip t (zip (groupby_pct_change (prev(ticker r \<mapsto> price r)) (map (\<lambda>r. (ticker r, price r)) t)) fs')))
    = series_pct_change ((prev(ticker r \<mapsto> price r)) k) (map price (filter (\<lambda>r. ticker r = k) t))"
    by (rule Cons.IH [OF fs(2)])
  show ?case
  proof (cases "ticker r = k")
    case True
    show ?thesis
      unfolding fs(1) using True by (simp add: IH [unfolded True] split: option.splits)
  next
    case False
    then show ?thesis
      unfolding fs(1) by (simp add: IH split: option.splits)
  qed
qed

lemma zip_field_series:
  "length ps = length t \<Longrightarrow> length fs = length t \<Longrightarrow>
   map (\<lambda>x. g (fst x)) (filter (\<lambda>x. ticker (fst x) = k) (zip t (zip ps fs)))
     = map g (filter (\<lambda>r. ticker r = k) t)"
proof (induction t arbitrary: ps fs)
  case Nil
  then show ?case by simp
next
  case (Cons r t)
  then show ?case by (cases ps; cases fs) auto
qed

lemma series_of_add_returns:
  "series_of k (add_returns t) =
     map (\<lambda>x. price_row.extend (fst x) (monthly_row.fields (fst (snd x)) (snd (snd x))))
       (filter (\<lambda>x. ticker (fst x) = k) (zip t (zip (past_returns t) (future_returns t))))"
  by (simp add: series_of_def add_returns_def filter_map comp_def case_prod_unfold price_row.defs)

lemma past_of_series:
  "map monthly_past_return (series_of k (add_returns t)) = series_pct_change None (map price (series_of k t))"
proof -
  have "map monthly_past_return (series_of k (add_returns t))
      = map (\<lambda>x. fst (snd x)) (filter (\<lambda>x. ticker (fst x) = k) (zip t (zip (past_returns t) (future_returns t))))"
    by (simp add: series_of_add_returns comp_def price_row.defs monthly_row.defs)
  also have "\<dots> = series_pct_change (Map.empty k) (map price (filter (\<lambda>r. ticker r = k) t))"
    unfolding past_returns_def by (rule groupby_pct_change_series) simp
  finally show ?thesis by (simp add: series_of_def)
qed

lemma price_of_series:
  "map price (series_of k (add_returns t)) = map price (series_of k t)"
proof -
  have "map price (series_of k (add_returns t))
      = map (\<lambda>x. price (fst x)) (filter (\<lambda>x. ticker (fst x) = k) (zip t (zip (past_returns t) (future_returns t))))"
    by (simp add: series_of_add_returns comp_def price_row.defs monthly_row.defs)
  also have "\<dots> = map price (filter (\<lambda>r. ticker r = k) t)"
    by (rule zip_field_series) simp_all
  finally show ?thesis by (simp add: series_of_def)
qed

lemma series_pct_change_length [simp]: "length (series_pct_change prev ps) = length ps"
  by (induction prev ps rule: series_pct_change.induct) auto

lemma series_pct_change_nth:
  "i < length ps \<Longrightarrow> series_pct_change prev ps ! i =
     (if i = 0 then (case prev of None \<Rightarrow> None | Some q \<Rightarrow> pct (ps ! 0) q) else pct (ps ! i) (ps ! (i - 1)))"
proof (induction prev ps arbitrary: i rule: series_pct_change.induct)
  case (1 prev)
  then show ?case by simp
next
  case (2 prev p ps)
  show ?case
  proof (cases i)
    case 0
    then show ?thesis by (simp split: option.splits)
  next
    case (Suc j)
    with 2 show ?thesis by (cases j) auto
  qed
qed


lemma date_of_series:
  "map date (series_of k (add_returns t)) = map date (series_of k t)"
proof -
  have "map date (series_of k (add_returns t))
      = map (\<lambda>x. date (fst x)) (filter (\<lambda>x. ticker (fst x) = k) (zip t (zip (past_returns t) (future_returns t))))"
    by (simp add: series_of_add_returns comp_def price_row.defs monthly_row.defs)
  also have "\<dots> = map date (filter (\<lambda>r. ticker r = k) t)"
    by (rule zip_field_series) simp_all
  finally show ?thesis by (simp add: series_of_def)
qed

lemma sorted_fst: "sorted (map (\<lambda>r. (f r, g r)) xs) \<Longrightarrow> sorted (map f xs)"
  by (induction xs) (auto simp: less_eq_prod_def)

lemma sorted_dates_sort_index: "sorted (map date (series_of k (sort_index t)))"
proof -
  have "sorted (map index_of (sort_index t))"
    by (simp add: sort_index_def)
  then have "sorted (map date (sort_index t))"
    unfolding index_of_def by (rule sorted_fst)
  then show ?thesis
    unfolding series_of_def by (metis sorted_filter)
qed

lemma price_present_after_filter:
  assumes "r \<in> set (series_of k (sort_index (filter_price_outliers raw)))"
  shows "\<exists>p. price r = Some p \<and> 0.1 \<le> p \<and> p \<le> 10000"
proof -
  from assms have "price_in_range (price r)"
    by (auto simp: series_of_def sort_index_def filter_price_outliers_def)
  then show ?thesis
    by (auto simp: price_in_range_def split: option.splits)
qed

text \<open>
  Claim C8. In the table after the return computation, the series of every ticker is in
  date order, the trailing return of its first record is missing, and the trailing
  return of every later record t is price[t] / price[t-1] - 1 over the ticker's own
  prices (exactly, the floats being idealised as reals).
\<close>

theorem trailing_return_per_ticker:
  assumes "s = series_of k (returns_table raw)"
  shows "(s \<noteq> [] \<longrightarrow> monthly_past_return (s ! 0) = None) \<and>
         (\<forall>i. 0 < i \<and> i < length s \<longrightarrow>
            (\<exists>p q. price (s ! i) = Some p \<and> price (s ! (i - 1)) = Some q \<and>
                   monthly_past_return (s ! i) = Some (p / q - 1))) \<and>
         sorted (map date s)"
proof -
  define t where "t = sort_index (filter_price_outliers raw)"
  define ps where "ps = map price (series_of k t)"
  have s: "s = series_of k (add_returns t)"
    using assms by (simp add: returns_table_def t_def)
  have len: "length s = length ps"
    using price_of_series [of k t] unfolding s ps_def by (metis length_map)
  have prices: "map price s = ps"
    unfolding s ps_def by (rule price_of_series)
  have past: "map monthly_past_return s = series_pct_change None ps"
    unfolding s ps_def by (rule past_of_series)
  have nth_price: "price (s ! i) = ps ! i" if "i < length s" for i
    using that prices by (metis nth_map)
  have nth_past: "monthly_past_return (s ! i) = series_pct_change None ps ! i" if "i < length s" for i
    using that past by (metis nth_map)
  have present: "\<exists>p. ps ! i = Some p" if "i < length s" for i
  proof -
    from that len have "series_of k t ! i \<in> set (series_of k t)"
      by (simp add: ps_def)
    from price_present_after_filter [OF this [unfolded t_def]] that len
    show ?thesis by (auto simp: ps_def t_def)
  qed
  have first: "s \<noteq> [] \<longrightarrow> monthly_past_return (s ! 0) = None"
  proof
    assume "s \<noteq> []"
    then have "0 < length s" by simp
    with nth_past [of 0] len show "monthly_past_return (s ! 0) = None"
      by (simp add: series_pct_change_nth)
  qed
  have later: "\<exists>p q. price (s ! i) = Some p \<and> price (s ! (i - 1)) = Some q \<and>
                   monthly_past_return (s ! i) = Some (p / q - 1)"
    if "0 < i \<and> i < length s" for i
  proof -
    from that have i: "0 < i" "i < length s" "i - 1 < length s" by auto
    obtain p where p: "ps ! i = Some p" using present [OF i(2)] by blast
    obtain q where q: "ps ! (i - 1) = Some q" using present [OF i(3)] by blast
    have "monthly_past_return (s ! i) = pct (ps ! i) (ps ! (i - 1))"
      using nth_past [OF i(2)] i len by (simp add: series_pct_change_nth)
    then have "monthly_past_return (s ! i) = Some (p / q - 1)"
      using p q by (simp add: pct_def)
    with p q nth_price [OF i(2)] nth_price [OF i(3)] show ?thesis by simp
  qed
  have "map date s = map date (series_of k t)"
    unfolding s by (rule date_of_series)
  then have "sorted (map date s)"
    by (simp add: t_def sorted_dates_sort_index)
  with first later show ?thesis by blast
qed

theorem trailing_return_per_ticker_witness:
  "series_of ''A'' (returns_table table_one_ticker) \<noteq> [] \<and>
   (0::nat) < 2 \<and> 2 < length (series_of ''A'' (returns_table table_one_ticker)) \<and>
   monthly_past_return (series_of ''A'' (returns_table table_one_ticker) ! 0) = None \<and>
   (\<exists>p q. price (series_of ''A'' (returns_table table_one_ticker) ! 2) = Some p \<and>
          price (series_of ''A'' (returns_table table_one_ticker) ! (2 - 1)) = Some q \<and>
          monthly_past_return (series_of ''A'' (returns_table table_one_ticker) ! 2) = Some (p / q - 1))"
proof -
  have len: "length (series_of ''A'' (returns_table table_one_ticker)) = 3"
    by (simp add: table_one_ticker_def eval_returns)
  then have ne: "series_of ''A'' (returns_table table_one_ticker) \<noteq> []"
    by auto
  note inst = trailing_return_per_ticker [OF refl, of "''A''" table_one_ticker]
  from inst [THEN conjunct1] inst [THEN conjunct2, THEN conjunct1, THEN spec, of 2] len ne
  show ?thesis by simp
qed


text \<open>The forward return of a row is the trailing return of the next row of the whole
  frame, whatever its ticker; only the last row of the frame has none.\<close>

lemma shift_minus_1_nth:
  "Suc i < length xs \<Longrightarrow> shift_minus_1 xs ! i = xs ! Suc i"
  by (cases xs) (auto simp: shift_minus_1_def nth_append)

lemma future_is_past_of_next_row:
  "Suc i < length t \<Longrightarrow> future_returns t ! i = past_returns t ! Suc i"
  by (simp add: future_returns_def past_returns_def shift_minus_1_nth)

text \<open>
  Claim C1 (the code departs from it). With two tickers A (10, 11) and B (100, 90) over
  the same two months, the forward return stored at the first record of A is missing,
  although its price pair 10, 11 gives 0.1, and the forward return stored at the last
  record of A is -0.1, the trailing return of B, although it should be missing.
\<close>

theorem forward_return_taken_from_next_row:
  "map price (series_of ''A'' (returns_table table_two_tickers)) = [Some 10, Some 11] \<and>
   map monthly_future_return (series_of ''A'' (returns_table table_two_tickers))
     = [None, Some (- (1 / 10))] \<and>
   map monthly_past_return (series_of ''B'' (returns_table table_two_tickers))
     = [None, Some (- (1 / 10))]"
  by (simp add: table_two_tickers_def eval_returns)

section \<open>Benchmark\<close>

lemma zip_map_self: "zip (map g xs) xs = map (\<lambda>x. (g x, x)) xs"
  by (induction xs) auto

text \<open>
  Claim C9. The benchmark PnL of every month of the benchmark series is 20 times the
  benchmark return of that month; the price table is no argument of the computation. A
  month with return 0.02 has PnL 0.4.
\<close>

theorem benchmark_pnl_is_20_times_return:
  "benchmark_pnl_series sp500_df = map (\<lambda>(d, x). (d, 20 * x)) (benchmark_returns sp500_df) \<and>
   benchmark_pnl_series [((2020, 1, 31), Some 0.02)] = [((2020, 1, 31), 0.4)]"
  by (simp add: benchmark_pnl_series_def sp500_signal_def zip_map_self benchmark_returns_def
      case_prod_unfold)

section \<open>Outlier suppression\<close>

lemma within_bounds_iff: "within_bounds v \<longleftrightarrow> \<not> is_outlier v"
  by (auto simp: within_bounds_def is_outlier_def split: option.splits)

lemma nulled_refl: "nulled_outside_crisis r r"
  unfolding nulled_outside_crisis_def
  by (rule exI [of _ "monthly_past_return r"], rule exI [of _ "monthly_future_return r"]) simp

lemma nulled_trans:
  "nulled_outside_crisis r r' \<Longrightarrow> nulled_outside_crisis r' r'' \<Longrightarrow> nulled_outside_crisis r r''"
  unfolding nulled_outside_crisis_def by (elim exE conjE) (auto)

lemma nulled_fields:
  assumes "nulled_outside_crisis r r'"
  shows "date r' = date r" "ticker r' = ticker r" "price r' = price r" "extra r' = extra r"
    "index_of r' = index_of r"
  using assms unfolding nulled_outside_crisis_def index_of_def by auto

lemma nulled_crisis:
  "nulled_outside_crisis r r' \<Longrightarrow> crisis_mask (date r) \<Longrightarrow> r' = r"
  unfolding nulled_outside_crisis_def by auto

lemma nulled_bounds:
  assumes "nulled_outside_crisis r r'"
  shows "within_bounds (monthly_past_return r) \<Longrightarrow> within_bounds (monthly_past_return r')"
    and "within_bounds (monthly_future_return r) \<Longrightarrow> within_bounds (monthly_future_return r')"
  using assms unfolding nulled_outside_crisis_def by (auto simp: within_bounds_def)

text \<open>The two guards of the loop body are redundant: an assignment through an empty list of
  labels changes nothing.\<close>

lemma suppress_ticker_eq:
  "suppress_ticker k t =
     loc_set_future_nan
       (map index_of (filter (\<lambda>r. is_outlier (monthly_future_return r))
          (filter (\<lambda>r. \<not> crisis_mask (date r)) (filter (\<lambda>r. ticker r = k) t))))
       (loc_set_past_nan
          (map index_of (filter (\<lambda>r. is_outlier (monthly_past_return r))
             (filter (\<lambda>r. \<not> crisis_mask (date r)) (filter (\<lambda>r. ticker r = k) t)))) t)"
proof -
  have e1: "loc_set_past_nan [] u = u" for u by (simp add: loc_set_past_nan_def)
  have e2: "loc_set_future_nan [] u = u" for u by (simp add: loc_set_future_nan_def)
  show ?thesis
    unfolding suppress_ticker_def Let_def
    by (auto simp: e1 e2 simp del: filter_filter)
qed

lemma label_not_crisis:
  assumes "index_of (r::monthly_row) \<in> set (map index_of (filter P (filter (\<lambda>r. \<not> crisis_mask (date r)) (u::monthly_row list))))"
  shows "\<not> crisis_mask (date r)"
proof -
  from assms obtain r0 :: monthly_row where "\<not> crisis_mask (date r0)" "index_of r = index_of r0"
    by auto
  then show ?thesis by (simp add: index_of_def)
qed

lemma suppress_ticker_row:
  "\<exists>f. suppress_ticker k t = map f t \<and> (\<forall>r. nulled_outside_crisis r (f r)) \<and>
       (\<forall>r \<in> set t. ticker r = k \<longrightarrow> \<not> crisis_mask (date r) \<longrightarrow>
          within_bounds (monthly_past_return (f r)) \<and> within_bounds (monthly_future_return (f r)))"
proof -
  define nc where "nc = filter (\<lambda>r. \<not> crisis_mask (date r)) (filter (\<lambda>r. ticker r = k) t)"
  define P where "P = map index_of (filter (\<lambda>r. is_outlier (monthly_past_return r)) nc)"
  define F where "F = map index_of (filter (\<lambda>r. is_outlier (monthly_future_return r)) nc)"
  define f :: "monthly_row \<Rightarrow> monthly_row" where
    "f = (\<lambda>r. (if index_of r \<in> set F then r\<lparr>monthly_future_return := None\<rparr> else r)) \<circ>
         (\<lambda>r. (if index_of r \<in> set P then r\<lparr>monthly_past_return := None\<rparr> else r))"
  have eq: "suppress_ticker k t = map f t"
    unfolding suppress_ticker_eq loc_set_future_nan_def loc_set_past_nan_def f_def P_def F_def nc_def
    by simp
  have ncP: "\<not> crisis_mask (date r)" if "index_of r \<in> set P" for r :: monthly_row
    using that unfolding P_def nc_def by (rule label_not_crisis)
  have ncF: "\<not> crisis_mask (date r)" if "index_of r \<in> set F" for r :: monthly_row
    using that unfolding F_def nc_def by (rule label_not_crisis)
  have rel: "nulled_outside_crisis r (f r)" for r
    unfolding nulled_outside_crisis_def
    apply (rule exI [of _ "if index_of r \<in> set P then None else monthly_past_return r"])
    apply (rule exI [of _ "if index_of r \<in> set F then None else monthly_future_return r"])
    using ncP [of r] ncF [of r] by (auto simp: f_def index_of_def)
  have bounds: "within_bounds (monthly_past_return (f r)) \<and> within_bounds (monthly_future_return (f r))"
    if "r \<in> set t" "ticker r = k" "\<not> crisis_mask (date r)" for r
  proof -
    from that have "r \<in> set nc" by (simp add: nc_def)
    then have p: "is_outlier (monthly_past_return r) \<Longrightarrow> index_of r \<in> set P"
      and q: "is_outlier (monthly_future_return r) \<Longrightarrow> index_of r \<in> set F"
      by (auto simp: P_def F_def)
    show ?thesis
      using p q by (auto simp: f_def within_bounds_iff index_of_def is_outlier_def)
  qed
  from eq rel bounds show ?thesis by blast
qed

lemma nulled_bounded:
  "nulled_outside_crisis r r' \<Longrightarrow> bounded_outside_crisis r \<Longrightarrow> bounded_outside_crisis r'"
  unfolding bounded_outside_crisis_def
  using nulled_bounds [of r r'] nulled_fields(1) [of r r'] by auto

lemma suppress_ticker_nulled:
  "list_all2 nulled_outside_crisis t (suppress_ticker k t)"
proof -
  from suppress_ticker_row [of k t] obtain f where
    "suppress_ticker k t = map f t" "\<forall>r. nulled_outside_crisis r (f r)" by blast
  then show ?thesis by (simp add: list_all2_conv_all_nth)
qed

lemma suppress_ticker_bounded:
  assumes "\<forall>r \<in> set t. ticker r \<in> S \<longrightarrow> bounded_outside_crisis r"
    and "r' \<in> set (suppress_ticker k t)" and "ticker r' \<in> insert k S"
  shows "bounded_outside_crisis r'"
proof -
  from suppress_ticker_row [of k t] obtain f where f:
    "suppress_ticker k t = map f t" "\<forall>r. nulled_outside_crisis r (f r)"
    "\<forall>r \<in> set t. ticker r = k \<longrightarrow> \<not> crisis_mask (date r) \<longrightarrow>
          within_bounds (monthly_past_return (f r)) \<and> within_bounds (monthly_future_return (f r))"
    by blast
  from assms(2) f(1) obtain r where r: "r \<in> set t" "r' = f r" by auto
  have rel: "nulled_outside_crisis r r'" using f(2) r(2) by simp
  have tk: "ticker r' = ticker r" and dt: "date r' = date r"
    using nulled_fields [OF rel] by simp_all
  show ?thesis
  proof (cases "ticker r = k")
    case True
    with f(3) r show ?thesis
      unfolding bounded_outside_crisis_def dt by auto
  next
    case False
    with assms(3) tk have "ticker r \<in> S" by simp
    with assms(1) r(1) have "bounded_outside_crisis r" by blast
    with rel show ?thesis by (rule nulled_bounded)
  qed
qed

lemma fold_suppress_nulled:
  "list_all2 nulled_outside_crisis t (fold suppress_ticker ks t)"
proof (induction ks arbitrary: t)
  case Nil
  show ?case by (simp add: list_all2_conv_all_nth nulled_refl)
next
  case (Cons k ks)
  have "list_all2 nulled_outside_crisis t (suppress_ticker k t)"
    by (rule suppress_ticker_nulled)
  moreover have "list_all2 nulled_outside_crisis (suppress_ticker k t) (fold suppress_ticker ks (suppress_ticker k t))"
    by (rule Cons.IH)
  ultimately have "list_all2 nulled_outside_crisis t (fold suppress_ticker ks (suppress_ticker k t))"
    by (rule list_all2_trans [rotated]) (rule nulled_trans)
  then show ?case by simp
qed

lemma fold_suppress_bounded:
  assumes "\<forall>r \<in> set t. ticker r \<in> S \<longrightarrow> bounded_outside_crisis r"
    and "r' \<in> set (fold suppress_ticker ks t)" and "ticker r' \<in> S \<union> set ks"
  shows "bounded_outside_crisis r'"
  using assms
proof (induction ks arbitrary: t S)
  case Nil
  then show ?case by simp
next
  case (Cons k ks)
  have step: "\<forall>r \<in> set (suppress_ticker k t). ticker r \<in> insert k S \<longrightarrow> bounded_outside_crisis r"
    using suppress_ticker_bounded [OF Cons.prems(1)] by blast
  from Cons.prems(2) have mem: "r' \<in> set (fold suppress_ticker ks (suppress_ticker k t))"
    by simp
  from Cons.prems(3) have "ticker r' \<in> insert k S \<union> set ks" by auto
  from Cons.IH [OF step mem this] show ?case .
qed

lemma suppress_outliers_nulled:
  "list_all2 nulled_outside_crisis t (suppress_outliers t)"
  unfolding suppress_outliers_def by (rule fold_suppress_nulled)

lemma suppress_outliers_bounded:
  assumes "r' \<in> set (suppress_outliers t)"
  shows "bounded_outside_crisis r'"
proof -
  from assms obtain i where i: "i < length (suppress_outliers t)" "r' = suppress_outliers t ! i"
    by (auto simp: in_set_conv_nth)
  have len: "length (suppress_outliers t) = length t"
    using suppress_outliers_nulled [of t] by (rule list_all2_lengthD [symmetric])
  have "nulled_outside_crisis (t ! i) r'"
    using suppress_outliers_nulled [of t] i by (simp add: list_all2_conv_all_nth)
  then have "ticker r' = ticker (t ! i)"
    by (rule nulled_fields(2))
  then have "ticker r' \<in> set (map ticker t)"
    using i(1) len by simp
  then have tk: "ticker r' \<in> {} \<union> set (unique (map ticker t))"
    by (simp add: unique_def)
  show ?thesis
    by (rule fold_suppress_bounded [OF _ assms [unfolded suppress_outliers_def] tk]) simp
qed

lemma length_suppress_outliers [simp]: "length (suppress_outliers t) = length t"
  using suppress_outliers_nulled [of t] by (simp add: list_all2_lengthD)

section \<open>Forward fill and row drop\<close>

lemma length_groupby_ffill [simp]: "length (groupby_ffill seen xs) = length xs"
  by (induction xs arbitrary: seen) (auto split: option.splits)

lemma groupby_ffill_series:
  "map snd (filter (\<lambda>x. ticker (fst x) = k)
      (zip t (groupby_ffill seen (map (\<lambda>r. (ticker r, g r)) t))))
   = series_ffill (seen k) (map g (filter (\<lambda>r. ticker r = k) t))"
proof (induction t arbitrary: seen)
  case Nil
  show ?case by simp
next
  case (Cons r t)
  show ?case
  proof (cases "g r")
    case None
    then show ?thesis by (simp add: Cons.IH)
  next
    case (Some x)
    have IH: "map snd (filter (\<lambda>x. ticker (fst x) = k)
        (zip t (groupby_ffill (seen(ticker r \<mapsto> x)) (map (\<lambda>r. (ticker r, g r)) t))))
      = series_ffill ((seen(ticker r \<mapsto> x)) k) (map g (filter (\<lambda>r. ticker r = k) t))"
      by (rule Cons.IH)
    show ?thesis
    proof (cases "ticker r = k")
      case True
      show ?thesis using True Some by (simp add: IH [unfolded True])
    next
      case False
      then show ?thesis using Some by (simp add: IH)
    qed
  qed
qed

lemma groupby_ffill_origin:
  "i < length xs \<Longrightarrow> groupby_ffill seen xs ! i = Some v \<Longrightarrow>
     (\<exists>j\<le>i. xs ! j = (fst (xs ! i), Some v)) \<or> seen (fst (xs ! i)) = Some v"
proof (induction xs arbitrary: seen i)
  case Nil
  then show ?case by simp
next
  case (Cons kv rest)
  obtain k w where kv: "kv = (k, w)" by (cases kv)
  show ?case
  proof (cases i)
    case 0
    with Cons.prems kv show ?thesis by (cases w) auto
  next
    case (Suc i')
    define seen' where "seen' = (case w of Some x \<Rightarrow> seen(k \<mapsto> x) | None \<Rightarrow> seen)"
    have res: "groupby_ffill seen' rest ! i' = Some v"
      using Cons.prems(2) Suc kv by (cases w) (simp_all add: seen'_def)
    have "i' < length rest" using Cons.prems(1) Suc by simp
    from Cons.IH [OF this res]
    consider (inner) j where "j \<le> i'" "rest ! j = (fst (rest ! i'), Some v)"
      | (state) "seen' (fst (rest ! i')) = Some v" by blast
    then show ?thesis
    proof cases
      case inner
      then have "Suc j \<le> i" "(kv # rest) ! Suc j = (fst ((kv # rest) ! i), Some v)"
        using Suc by simp_all
      then show ?thesis by blast
    next
      case state
      show ?thesis
      proof (cases "w = Some v \<and> fst (rest ! i') = k")
        case True
        then have "(kv # rest) ! 0 = (fst ((kv # rest) ! i), Some v)"
          using kv Suc by simp
        then show ?thesis by blast
      next
        case False
        with state have "seen (fst (rest ! i')) = Some v"
          by (cases w) (auto simp: seen'_def split: if_splits)
        then show ?thesis using Suc by simp
      qed
    qed
  qed
qed

lemma groupby_ffill_present:
  "i < length xs \<Longrightarrow> snd (xs ! i) = Some x \<Longrightarrow> groupby_ffill seen xs ! i = Some x"
proof (induction xs arbitrary: seen i)
  case Nil
  then show ?case by simp
next
  case (Cons kv rest)
  obtain k w where kv: "kv = (k, w)" by (cases kv)
  show ?case
  proof (cases i)
    case 0
    with Cons.prems kv show ?thesis by simp
  next
    case (Suc i')
    with Cons.prems have "i' < length rest" "snd (rest ! i') = Some x" by simp_all
    from Cons.IH [OF this] show ?thesis
      using Suc kv by (cases w) simp_all
  qed
qed

lemma length_ffill_price [simp]: "length (ffill_price t) = length t"
  by (simp add: ffill_price_def)

lemma length_ffill_past_return [simp]: "length (ffill_past_return t) = length t"
  by (simp add: ffill_past_return_def)

lemma ffill_price_nth:
  "i < length t \<Longrightarrow> ffill_price t ! i =
     (t ! i)\<lparr>price := groupby_ffill Map.empty (map (\<lambda>r. (ticker r, price r)) t) ! i\<rparr>"
  by (simp add: ffill_price_def)

lemma ffill_past_return_nth:
  "i < length t \<Longrightarrow> ffill_past_return t ! i =
     (t ! i)\<lparr>monthly_past_return :=
        groupby_ffill Map.empty (map (\<lambda>r. (ticker r, monthly_past_return r)) t) ! i\<rparr>"
  by (simp add: ffill_past_return_def)

lemma zip_column_series:
  "length vs = length t \<Longrightarrow>
   map (\<lambda>x. g (fst x)) (filter (\<lambda>x. ticker (fst x) = k) (zip t vs))
     = map g (filter (\<lambda>r. ticker r = k) t)"
proof (induction t arbitrary: vs)
  case Nil
  then show ?case by simp
next
  case (Cons r t)
  then show ?case by (cases vs) auto
qed

lemma series_of_ffill_price:
  "series_of k (ffill_price t) =
     map (\<lambda>x. (fst x)\<lparr>price := snd x\<rparr>)
       (filter (\<lambda>x. ticker (fst x) = k)
          (zip t (groupby_ffill Map.empty (map (\<lambda>r. (ticker r, price r)) t))))"
  by (simp add: series_of_def ffill_price_def filter_map comp_def case_prod_unfold)

lemma series_of_ffill_past_return:
  "series_of k (ffill_past_return t) =
     map (\<lambda>x. (fst x)\<lparr>monthly_past_return := snd x\<rparr>)
       (filter (\<lambda>x. ticker (fst x) = k)
          (zip t (groupby_ffill Map.empty (map (\<lambda>r. (ticker r, monthly_past_return r)) t))))"
  by (simp add: series_of_def ffill_past_return_def filter_map comp_def case_prod_unfold)

lemma price_series_ffill_price:
  "map price (series_of k (ffill_price t)) = series_ffill None (map price (series_of k t))"
proof -
  have "map price (series_of k (ffill_price t))
      = map snd (filter (\<lambda>x. ticker (fst x) = k)
          (zip t (groupby_ffill Map.empty (map (\<lambda>r. (ticker r, price r)) t))))"
    by (simp add: series_of_ffill_price comp_def)
  also have "\<dots> = series_ffill (Map.empty k) (map price (filter (\<lambda>r. ticker r = k) t))"
    by (rule groupby_ffill_series)
  finally show ?thesis by (simp add: series_of_def)
qed

lemma past_series_ffill_past_return:
  "map monthly_past_return (series_of k (ffill_past_return t))
     = series_ffill None (map monthly_past_return (series_of k t))"
proof -
  have "map monthly_past_return (series_of k (ffill_past_return t))
      = map snd (filter (\<lambda>x. ticker (fst x) = k)
          (zip t (groupby_ffill Map.empty (map (\<lambda>r. (ticker r, monthly_past_return r)) t))))"
    by (simp add: series_of_ffill_past_return comp_def)
  also have "\<dots> = series_ffill (Map.empty k) (map monthly_past_return (filter (\<lambda>r. ticker r = k) t))"
    by (rule groupby_ffill_series)
  finally show ?thesis by (simp add: series_of_def)
qed

lemma past_series_ffill_price:
  "map monthly_past_return (series_of k (ffill_price t)) = map monthly_past_return (series_of k t)"
proof -
  have "map monthly_past_return (series_of k (ffill_price t))
      = map (\<lambda>x. monthly_past_return (fst x)) (filter (\<lambda>x. ticker (fst x) = k)
          (zip t (groupby_ffill Map.empty (map (\<lambda>r. (ticker r, price r)) t))))"
    by (simp add: series_of_ffill_price comp_def)
  also have "\<dots> = map monthly_past_return (filter (\<lambda>r. ticker r = k) t)"
    by (rule zip_column_series) simp
  finally show ?thesis by (simp add: series_of_def)
qed

lemma price_series_ffill_past_return:
  "map price (series_of k (ffill_past_return t)) = map price (series_of k t)"
proof -
  have "map price (series_of k (ffill_past_return t))
      = map (\<lambda>x. price (fst x)) (filter (\<lambda>x. ticker (fst x) = k)
          (zip t (groupby_ffill Map.empty (map (\<lambda>r. (ticker r, monthly_past_return r)) t))))"
    by (simp add: series_of_ffill_past_return comp_def)
  also have "\<dots> = map price (filter (\<lambda>r. ticker r = k) t)"
    by (rule zip_column_series) simp
  finally show ?thesis by (simp add: series_of_def)
qed

lemma future_ffill_price:
  "map monthly_future_return (ffill_price t) = map monthly_future_return t"
  by (rule nth_equalityI) (simp_all add: ffill_price_nth)

lemma future_ffill_past_return:
  "map monthly_future_return (ffill_past_return t) = map monthly_future_return t"
  by (rule nth_equalityI) (simp_all add: ffill_past_return_nth)

lemma ticker_past_ffill_price:
  "map (\<lambda>r. (ticker r, monthly_past_return r)) (ffill_price t)
     = map (\<lambda>r. (ticker r, monthly_past_return r)) t"
  by (rule nth_equalityI) (simp_all add: ffill_price_nth)

text \<open>A row of the forward-filled table against the row of the suppressed table at the
  same position.\<close>

lemma filled_row:
  assumes "i < length t"
  shows "date (ffill_past_return (ffill_price t) ! i) = date (t ! i)"
    and "ticker (ffill_past_return (ffill_price t) ! i) = ticker (t ! i)"
    and "extra (ffill_past_return (ffill_price t) ! i) = extra (t ! i)"
    and "monthly_future_return (ffill_past_return (ffill_price t) ! i) = monthly_future_return (t ! i)"
    and "monthly_past_return (ffill_past_return (ffill_price t) ! i)
           = groupby_ffill Map.empty (map (\<lambda>r. (ticker r, monthly_past_return r)) t) ! i"
    and "price (ffill_past_return (ffill_price t) ! i)
           = groupby_ffill Map.empty (map (\<lambda>r. (ticker r, price r)) t) ! i"
  using assms by (simp_all add: ffill_past_return_nth ffill_price_nth ticker_past_ffill_price)

lemma filled_past_origin:
  assumes "i < length t"
    and "monthly_past_return (ffill_past_return (ffill_price t) ! i) = Some v"
  shows "\<exists>j\<le>i. ticker (t ! j) = ticker (t ! i) \<and> monthly_past_return (t ! j) = Some v"
proof -
  let ?xs = "map (\<lambda>r. (ticker r, monthly_past_return r)) t"
  have "groupby_ffill Map.empty ?xs ! i = Some v"
    using assms filled_row(5) [of i t] by simp
  with assms(1) groupby_ffill_origin [of i ?xs Map.empty v]
  obtain j where "j \<le> i" "?xs ! j = (fst (?xs ! i), Some v)" by auto
  with assms(1) show ?thesis by auto
qed

lemma length_filled_table: "length (filled_table raw) = length (suppressed_table raw)"
  by (simp add: filled_table_def)

lemma no_missing_future: "no_missing r \<Longrightarrow> notna (monthly_future_return r)"
  by (simp add: no_missing_def)

lemma preprocess_prices_filter:
  "preprocess_prices raw = filter no_missing (filled_table raw)"
proof -
  have "(no_missing r \<and> notna (monthly_future_return r)) = no_missing r" for r
    using no_missing_future by blast
  then show ?thesis
    by (simp add: preprocess_prices_def dropna_def dropna_future_def conj_commute)
qed

lemma notna_Some: "notna v \<longleftrightarrow> (\<exists>x. v = Some x)"
  by (cases v) (simp_all add: notna_def)

lemma list_all_notna: "list_all notna vs \<longleftrightarrow> None \<notin> set vs"
  by (induction vs) (auto simp: notna_def split: option.splits)

lemma suppressed_bounded:
  assumes "r \<in> set (suppressed_table raw)" and "\<not> crisis_mask (date r)"
  shows "within_bounds (monthly_past_return r) \<and> within_bounds (monthly_future_return r)"
  using suppress_outliers_bounded [of r "returns_table raw"] assms
  by (simp add: suppressed_table_def bounded_outside_crisis_def)

section \<open>The pipeline on a ticker that leaves the crisis window\<close>

lemmas eval_suppress = suppressed_table_def suppress_outliers_def suppress_ticker_def unique_def
  crisis_mask_def is_outlier_def loc_set_past_nan_def loc_set_future_nan_def index_of_def Let_def

lemmas eval_fill = filled_table_def ffill_price_def ffill_past_return_def

lemmas eval_drop = preprocess_prices_def dropna_def dropna_future_def no_missing_def notna_def

lemma returns_table_crisis_carry:
  "returns_table table_crisis_carry =
     [\<lparr>date = (2009, 11, 30), ticker = ''A'', price = Some 10, extra = [],
        monthly_past_return = None, monthly_future_return = Some (3 / 2)\<rparr>,
      \<lparr>date = (2009, 12, 31), ticker = ''A'', price = Some 25, extra = [],
        monthly_past_return = Some (3 / 2), monthly_future_return = Some 2\<rparr>,
      \<lparr>date = (2010, 1, 31), ticker = ''A'', price = Some 75, extra = [],
        monthly_past_return = Some 2, monthly_future_return = Some (1 / 15)\<rparr>,
      \<lparr>date = (2010, 2, 28), ticker = ''A'', price = Some 80, extra = [],
        monthly_past_return = Some (1 / 15), monthly_future_return = None\<rparr>]"
  by (simp add: table_crisis_carry_def eval_returns)

lemma suppressed_table_crisis_carry:
  "suppressed_table table_crisis_carry =
     [\<lparr>date = (2009, 11, 30), ticker = ''A'', price = Some 10, extra = [],
        monthly_past_return = None, monthly_future_return = Some (3 / 2)\<rparr>,
      \<lparr>date = (2009, 12, 31), ticker = ''A'', price = Some 25, extra = [],
        monthly_past_return = Some (3 / 2), monthly_future_return = Some 2\<rparr>,
      \<lparr>date = (2010, 1, 31), ticker = ''A'', price = Some 75, extra = [],
        monthly_past_return = None, monthly_future_return = Some (1 / 15)\<rparr>,
      \<lparr>date = (2010, 2, 28), ticker = ''A'', price = Some 80, extra = [],
        monthly_past_return = Some (1 / 15), monthly_future_return = None\<rparr>]"
  unfolding suppressed_table_def returns_table_crisis_carry
  by (simp add: eval_suppress)

lemma filled_table_crisis_carry:
  "filled_table table_crisis_carry =
     [\<lparr>date = (2009, 11, 30), ticker = ''A'', price = Some 10, extra = [],
        monthly_past_return = None, monthly_future_return = Some (3 / 2)\<rparr>,
      \<lparr>date = (2009, 12, 31), ticker = ''A'', price = Some 25, extra = [],
        monthly_past_return = Some (3 / 2), monthly_future_return = Some 2\<rparr>,
      \<lparr>date = (2010, 1, 31), ticker = ''A'', price = Some 75, extra = [],
        monthly_past_return = Some (3 / 2), monthly_future_return = Some (1 / 15)\<rparr>,
      \<lparr>date = (2010, 2, 28), ticker = ''A'', price = Some 80, extra = [],
        monthly_past_return = Some (1 / 15), monthly_future_return = None\<rparr>]"
  unfolding filled_table_def suppressed_table_crisis_carry
  by (simp add: ffill_price_def ffill_past_return_def)

lemma preprocess_prices_crisis_carry:
  "preprocess_prices table_crisis_carry =
     [\<lparr>date = (2009, 12, 31), ticker = ''A'', price = Some 25, extra = [],
        monthly_past_return = Some (3 / 2), monthly_future_return = Some 2\<rparr>,
      \<lparr>date = (2010, 1, 31), ticker = ''A'', price = Some 75, extra = [],
        monthly_past_return = Some (3 / 2), monthly_future_return = Some (1 / 15)\<rparr>]"
  unfolding preprocess_prices_def filled_table_crisis_carry
  by (simp add: dropna_def dropna_future_def no_missing_def notna_def)

section \<open>Claims on suppression, fill and drop\<close>

text \<open>
  Claim C4. The suppression loop keeps the length of the table, and a row whose date lies
  in the crisis window 2008-01-01 .. 2009-12-31 comes out of it as it went in, whatever
  its trailing and forward return are.
\<close>

theorem crisis_rows_untouched:
  "length (suppressed_table raw) = length (returns_table raw) \<and>
   (\<forall>i < length (returns_table raw).
      crisis_mask (date (returns_table raw ! i)) \<longrightarrow>
        suppressed_table raw ! i = returns_table raw ! i)"
proof -
  have rel: "list_all2 nulled_outside_crisis (returns_table raw) (suppressed_table raw)"
    unfolding suppressed_table_def by (rule suppress_outliers_nulled)
  then have "nulled_outside_crisis (returns_table raw ! i) (suppressed_table raw ! i)"
    if "i < length (returns_table raw)" for i
    using that by (simp add: list_all2_conv_all_nth)
  then have "\<forall>i < length (returns_table raw).
      crisis_mask (date (returns_table raw ! i)) \<longrightarrow>
        suppressed_table raw ! i = returns_table raw ! i"
    using nulled_crisis by blast
  moreover have "length (suppressed_table raw) = length (returns_table raw)"
    using rel by (rule list_all2_lengthD [symmetric])
  ultimately show ?thesis by simp
qed

theorem crisis_rows_untouched_witness:
  "(1::nat) < length (returns_table table_crisis_carry) \<and>
   crisis_mask (date (returns_table table_crisis_carry ! 1)) \<and>
   monthly_past_return (returns_table table_crisis_carry ! 1) = Some (3 / 2) \<and>
   monthly_future_return (returns_table table_crisis_carry ! 1) = Some 2 \<and>
   suppressed_table table_crisis_carry ! 1 = returns_table table_crisis_carry ! 1"
proof -
  have l: "1 < length (returns_table table_crisis_carry)"
    by (simp add: returns_table_crisis_carry)
  have c: "crisis_mask (date (returns_table table_crisis_carry ! 1))"
    by (simp add: returns_table_crisis_carry crisis_mask_def)
  have v: "monthly_past_return (returns_table table_crisis_carry ! 1) = Some (3 / 2)"
    "monthly_future_return (returns_table table_crisis_carry ! 1) = Some 2"
    by (simp_all add: returns_table_crisis_carry)
  from crisis_rows_untouched [of table_crisis_carry, THEN conjunct2, THEN spec, of 1] l c
  have "suppressed_table table_crisis_carry ! 1 = returns_table table_crisis_carry ! 1"
    by blast
  with l c v show ?thesis by blast
qed

text \<open>
  Claim C3, as stated, fails on the output table: ticker A with month-end prices 10, 25,
  75, 80 from November 2009 to February 2010 has the trailing return 1.5 in December 2009,
  which the crisis window keeps; the trailing return 2 of January 2010 is suppressed, and
  the forward fill then stores 1.5 in the January 2010 record, outside the window.
\<close>

theorem crisis_value_carried_outside_window:
  "preprocess_prices table_crisis_carry ! 1 =
     \<lparr>date = (2010, 1, 31), ticker = ''A'', price = Some 75, extra = [],
       monthly_past_return = Some (3 / 2), monthly_future_return = Some (1 / 15)\<rparr> \<and>
   \<not> crisis_mask (2010, 1, 31) \<and> \<not> within_bounds (Some (3 / 2))"
  by (simp add: preprocess_prices_crisis_carry crisis_mask_def within_bounds_def)

text \<open>
  Claim C5. After the suppression, the price and the trailing return of every ticker are
  forward-filled along the series of the ticker, the forward returns are left as they
  are, the output is exactly the rows of the filled table without a missing cell (so
  every row without forward return is dropped), and every row of the output has a price,
  a trailing return, a forward return and no missing extra column. A missing cell is
  never replaced by a number other than the value carried forward.
\<close>

theorem forward_fill_then_drop:
  "map price (series_of k (filled_table raw))
     = series_ffill None (map price (series_of k (suppressed_table raw))) \<and>
   map monthly_past_return (series_of k (filled_table raw))
     = series_ffill None (map monthly_past_return (series_of k (suppressed_table raw))) \<and>
   map monthly_future_return (filled_table raw)
     = map monthly_future_return (suppressed_table raw) \<and>
   preprocess_prices raw = filter no_missing (filled_table raw) \<and>
   (\<forall>r \<in> set (filled_table raw). monthly_future_return r = None \<longrightarrow>
      r \<notin> set (preprocess_prices raw)) \<and>
   (\<forall>r \<in> set (preprocess_prices raw).
      (\<exists>p. price r = Some p) \<and> (\<exists>x. monthly_past_return r = Some x) \<and>
      (\<exists>y. monthly_future_return r = Some y) \<and> None \<notin> set (extra r))"
proof -
  have a: "map price (series_of k (filled_table raw))
     = series_ffill None (map price (series_of k (suppressed_table raw)))"
    by (simp add: filled_table_def price_series_ffill_past_return price_series_ffill_price)
  have b: "map monthly_past_return (series_of k (filled_table raw))
     = series_ffill None (map monthly_past_return (series_of k (suppressed_table raw)))"
    by (simp add: filled_table_def past_series_ffill_past_return past_series_ffill_price)
  have c: "map monthly_future_return (filled_table raw)
     = map monthly_future_return (suppressed_table raw)"
    by (simp add: filled_table_def future_ffill_past_return future_ffill_price)
  have d: "preprocess_prices raw = filter no_missing (filled_table raw)"
    by (rule preprocess_prices_filter)
  have e: "\<forall>r \<in> set (filled_table raw). monthly_future_return r = None \<longrightarrow>
      r \<notin> set (preprocess_prices raw)"
    by (auto simp: d no_missing_def notna_def)
  have f: "\<forall>r \<in> set (preprocess_prices raw).
      (\<exists>p. price r = Some p) \<and> (\<exists>x. monthly_past_return r = Some x) \<and>
      (\<exists>y. monthly_future_return r = Some y) \<and> None \<notin> set (extra r)"
    by (auto simp: d no_missing_def notna_Some list_all_notna)
  from a b c d e f show ?thesis by blast
qed

theorem forward_fill_then_drop_witness:
  "filled_table table_crisis_carry ! 3 \<in> set (filled_table table_crisis_carry) \<and>
   monthly_future_return (filled_table table_crisis_carry ! 3) = None \<and>
   filled_table table_crisis_carry ! 3 \<notin> set (preprocess_prices table_crisis_carry) \<and>
   preprocess_prices table_crisis_carry ! 1 \<in> set (preprocess_prices table_crisis_carry) \<and>
   monthly_past_return (suppressed_table table_crisis_carry ! 2) = None \<and>
   price (preprocess_prices table_crisis_carry ! 1) = Some 75 \<and>
   monthly_past_return (preprocess_prices table_crisis_carry ! 1) = Some (3 / 2) \<and>
   (\<exists>y. monthly_future_return (preprocess_prices table_crisis_carry ! 1) = Some y) \<and>
   None \<notin> set (extra (preprocess_prices table_crisis_carry ! 1))"
proof -
  have m3: "filled_table table_crisis_carry ! 3 \<in> set (filled_table table_crisis_carry)"
    by (simp add: filled_table_crisis_carry)
  have f3: "monthly_future_return (filled_table table_crisis_carry ! 3) = None"
    by (simp add: filled_table_crisis_carry)
  have m1: "preprocess_prices table_crisis_carry ! 1 \<in> set (preprocess_prices table_crisis_carry)"
    by (simp add: preprocess_prices_crisis_carry)
  have v: "monthly_past_return (suppressed_table table_crisis_carry ! 2) = None"
    "price (preprocess_prices table_crisis_carry ! 1) = Some 75"
    "monthly_past_return (preprocess_prices table_crisis_carry ! 1) = Some (3 / 2)"
    by (simp_all add: suppressed_table_crisis_carry preprocess_prices_crisis_carry)
  note inst = forward_fill_then_drop [of "''A''" table_crisis_carry]
  from inst m3 f3
  have a: "filled_table table_crisis_carry ! 3 \<notin> set (preprocess_prices table_crisis_carry)"
    by blast
  from inst m1
  have b: "(\<exists>y. monthly_future_return (preprocess_prices table_crisis_carry ! 1) = Some y) \<and>
      None \<notin> set (extra (preprocess_prices table_crisis_carry ! 1))"
    by blast
  from m3 f3 m1 v a b show ?thesis by blast
qed

section \<open>Signal builder\<close>

lemma present_pairs:
  assumes "\<forall>(k, v) \<in> set s. v \<noteq> None"
  shows "concat (map (\<lambda>(k, v). case v of None \<Rightarrow> [] | Some x \<Rightarrow> [(k, x)]) s)
           = map (\<lambda>(k, v). (k, the v)) s"
  using assms by (induction s) (auto split: option.splits)

lemma count_labelled:
  assumes "distinct (map f xs)" and "distinct ks" and "set ks \<subseteq> f ` set xs"
  shows "length (filter (\<lambda>x. f x \<in> set ks) xs) = length ks"
proof -
  have dx: "distinct xs" using assms(1) by (simp add: distinct_map)
  have inj: "inj_on f (set xs)" using assms(1) by (simp add: distinct_map)
  have "length (filter (\<lambda>x. f x \<in> set ks) xs) = card {x \<in> set xs. f x \<in> set ks}"
    using dx by (simp add: distinct_length_filter Int_def conj_commute)
  also have "\<dots> = card (f ` {x \<in> set xs. f x \<in> set ks})"
    by (rule card_image [symmetric]) (rule inj_on_subset [OF inj], auto)
  also have "f ` {x \<in> set xs. f x \<in> set ks} = set ks"
    using assms(3) by auto
  also have "card (set ks) = length ks"
    using assms(2) by (rule distinct_card)
  finally show ?thesis .
qed

lemma distinct_fst_sort_key:
  "distinct (map fst xs) \<Longrightarrow> distinct (map fst (sort_key f xs))"
proof -
  assume d: "distinct (map fst xs)"
  have "card (set (map fst (sort_key f xs))) = card (set (map fst xs))"
    by simp
  also have "\<dots> = length (map fst xs)"
    using d by (rule distinct_card)
  also have "\<dots> = length (map fst (sort_key f xs))"
    by simp
  finally show ?thesis by (rule card_distinct)
qed

lemma sorted_take_drop:
  assumes "sorted (map f xs)" and "x \<in> set (take n xs)" and "y \<in> set (drop n xs)"
  shows "f x \<le> f y"
proof -
  have "sorted (map f (take n xs) @ map f (drop n xs))"
    using assms(1) by (simp flip: map_append)
  then show ?thesis
    using assms(2,3) by (auto simp: sorted_append)
qed

text \<open>The labels that \<open>nlargest\<close> returns, for a series without missing cell and with
  distinct labels.\<close>

lemma nlargest_index_props:
  assumes present: "\<forall>(k, v) \<in> set s. v \<noteq> None"
    and dist: "distinct (map fst s)"
    and n: "n \<le> length s"
  shows "length (nlargest_index n s) = n"
    and "distinct (nlargest_index n s)"
    and "set (nlargest_index n s) \<subseteq> fst ` set s"
    and "\<And>k a k' b. (k, Some a) \<in> set s \<Longrightarrow> (k', Some b) \<in> set s \<Longrightarrow>
           k \<in> set (nlargest_index n s) \<Longrightarrow> k' \<notin> set (nlargest_index n s) \<Longrightarrow> b \<le> a"
proof -
  define P where "P = map (\<lambda>(k, v). (k, the v)) s"
  define srt where "srt = sort_key (\<lambda>(k, x). - x) P"
  have nl: "nlargest_index n s = map fst (take n srt)"
    unfolding nlargest_index_def srt_def P_def using present_pairs [OF present] by simp
  have fstP: "map fst P = map fst s"
    by (simp add: P_def comp_def case_prod_unfold)
  have lenP: "length srt = length s"
    by (simp add: srt_def P_def)
  have dsrt: "distinct (map fst srt)"
    unfolding srt_def by (rule distinct_fst_sort_key) (simp add: fstP dist)
  have setsrt: "set srt = set P"
    by (simp add: srt_def)
  show "length (nlargest_index n s) = n"
    using n lenP by (simp add: nl)
  show "distinct (nlargest_index n s)"
    unfolding nl using dsrt by (simp add: take_map [symmetric] distinct_take)
  show "set (nlargest_index n s) \<subseteq> fst ` set s"
  proof
    fix k assume "k \<in> set (nlargest_index n s)"
    then have "k \<in> fst ` set srt"
      unfolding nl by (auto dest: in_set_takeD)
    then have "k \<in> set (map fst P)" by (simp add: setsrt)
    then show "k \<in> fst ` set s" by (simp add: fstP)
  qed
  show "b \<le> a" if ka: "(k, Some a) \<in> set s" and kb: "(k', Some b) \<in> set s"
    and sel: "k \<in> set (nlargest_index n s)" and nsel: "k' \<notin> set (nlargest_index n s)"
    for k a k' b
  proof -
    have Pa: "(k, a) \<in> set srt" and Pb: "(k', b) \<in> set srt"
      using ka kb by (force simp: setsrt P_def)+
    from sel obtain a' where a': "(k, a') \<in> set (take n srt)"
      unfolding nl by auto
    have "a' = a"
    proof -
      have "(k, a') \<in> set srt" using a' by (rule in_set_takeD)
      with Pa dsrt show ?thesis
        by (meson eq_key_imp_eq_value)
    qed
    with a' have ina: "(k, a) \<in> set (take n srt)" by simp
    have "(k', b) \<notin> set (take n srt)"
      using nsel unfolding nl by force
    with Pb have inb: "(k', b) \<in> set (drop n srt)"
      by (metis Un_iff append_take_drop_id set_append)
    have "sorted (map (\<lambda>(k, x). - x) srt)"
      by (simp add: srt_def)
    from sorted_take_drop [OF this ina inb] show ?thesis by simp
  qed
qed

lemma get_top_20_signal_map:
  "get_top_20_signal grp =
     map (\<lambda>x. monthly_row.extend (fst x) (signal_row.fields (snd x) (selected grp (fst x)))) grp"
  by (simp add: get_top_20_signal_def selected_def Let_def case_prod_unfold)

lemma signal_extend [simp]:
  "signal (monthly_row.extend r (signal_row.fields a b)) = b"
  "average_return_1y (monthly_row.extend r (signal_row.fields a b)) = a"
  "date (monthly_row.extend r (signal_row.fields a b)) = date r"
  "ticker (monthly_row.extend r (signal_row.fields a b)) = ticker r"
  "monthly_future_return (monthly_row.extend r (signal_row.fields a b)) = monthly_future_return r"
  "monthly_past_return (monthly_row.extend r (signal_row.fields a b)) = monthly_past_return r"
  by (simp_all add: monthly_row.defs signal_row.defs)

lemma length_get_top_20_signal [simp]: "length (get_top_20_signal grp) = length grp"
  by (simp add: get_top_20_signal_map)

lemma date_get_top_20_signal:
  "map date (get_top_20_signal grp) = map (\<lambda>x. date (fst x)) grp"
  by (simp add: get_top_20_signal_map comp_def)

lemma count_get_top_20_signal:
  "length (filter signal (get_top_20_signal grp))
     = length (filter (\<lambda>x. selected grp (fst x)) grp)"
  by (simp add: get_top_20_signal_map filter_map comp_def)

lemma get_top_20_signal_count:
  assumes dist: "distinct (map (\<lambda>x. index_of (fst x)) grp)"
    and present: "\<forall>x \<in> set grp. snd x \<noteq> None"
  shows "length (filter signal (get_top_20_signal grp)) = min (length grp) 20"
proof (cases "length grp < 20")
  case True
  then show ?thesis
    by (simp add: count_get_top_20_signal selected_def)
next
  case False
  define s where "s = map (\<lambda>(r, a). (index_of r, a)) grp"
  have fsts: "map fst s = map (\<lambda>x. index_of (fst x)) grp"
    by (simp add: s_def comp_def case_prod_unfold)
  have p: "\<forall>(k, v) \<in> set s. v \<noteq> None"
    using present by (auto simp: s_def)
  have d: "distinct (map fst s)" using dist by (simp add: fsts)
  have n: "20 \<le> length s" using False by (simp add: s_def)
  note props = nlargest_index_props [OF p d n]
  have sub: "set (nlargest_index 20 s) \<subseteq> (\<lambda>x. index_of (fst x)) ` set grp"
    using props(3) fsts by (metis image_set)
  have "length (filter (\<lambda>x. index_of (fst x) \<in> set (nlargest_index 20 s)) grp)
          = length (nlargest_index 20 s)"
    by (rule count_labelled [OF dist props(2) sub])
  with props(1) False show ?thesis
    by (simp add: count_get_top_20_signal selected_def s_def)
qed

lemma get_top_20_signal_order:
  assumes dist: "distinct (map (\<lambda>x. index_of (fst x)) grp)"
    and present: "\<forall>x \<in> set grp. snd x \<noteq> None"
    and x: "x \<in> set (get_top_20_signal grp)" "signal x"
    and y: "y \<in> set (get_top_20_signal grp)" "\<not> signal y"
  shows "\<exists>a b. average_return_1y x = Some a \<and> average_return_1y y = Some b \<and> b \<le> a"
proof -
  define s where "s = map (\<lambda>(r, a). (index_of r, a)) grp"
  have fsts: "map fst s = map (\<lambda>x. index_of (fst x)) grp"
    by (simp add: s_def comp_def case_prod_unfold)
  from x(1) obtain gx where gx: "gx \<in> set grp"
    "x = monthly_row.extend (fst gx) (signal_row.fields (snd gx) (selected grp (fst gx)))"
    by (auto simp: get_top_20_signal_map)
  from y(1) obtain gy where gy: "gy \<in> set grp"
    "y = monthly_row.extend (fst gy) (signal_row.fields (snd gy) (selected grp (fst gy)))"
    by (auto simp: get_top_20_signal_map)
  from y(2) gy(2) have ny: "\<not> selected grp (fst gy)" by simp
  then have big: "\<not> length grp < 20"
    and ky: "index_of (fst gy) \<notin> set (nlargest_index 20 s)"
    by (simp_all add: selected_def s_def)
  from x(2) gx(2) big have kx: "index_of (fst gx) \<in> set (nlargest_index 20 s)"
    by (simp add: selected_def s_def)
  from present gx(1) obtain a where a: "snd gx = Some a" by blast
  from present gy(1) obtain b where b: "snd gy = Some b" by blast
  note ab = a b
  have sset: "set s = (\<lambda>x. (index_of (fst x), snd x)) ` set grp"
    by (simp add: s_def case_prod_unfold)
  have inx: "(index_of (fst gx), Some a) \<in> set s"
    unfolding sset ab(1) [symmetric] using gx(1) by (rule imageI)
  have iny: "(index_of (fst gy), Some b) \<in> set s"
    unfolding sset ab(2) [symmetric] using gy(1) by (rule imageI)
  have p: "\<forall>(k, v) \<in> set s. v \<noteq> None"
    using present by (auto simp: s_def)
  have d: "distinct (map fst s)" using dist by (simp add: fsts)
  have n: "20 \<le> length s" using big by (simp add: s_def)
  have "b \<le> a"
    by (rule nlargest_index_props(4) [OF p d n inx iny kx ky])
  with ab gx(2) gy(2) show ?thesis by simp
qed

lemma length_groupby_rolling_mean [simp]:
  "length (groupby_rolling_mean hist xs) = length xs"
  by (induction xs arbitrary: hist) (auto simp: Let_def)

lemma nanmean_present: "nanmean (take 12 (Some x # h)) \<noteq> None"
  by (simp add: nanmean_def Let_def)

lemma groupby_rolling_mean_present:
  "i < length xs \<Longrightarrow> snd (xs ! i) \<noteq> None \<Longrightarrow> groupby_rolling_mean hist xs ! i \<noteq> None"
proof (induction xs arbitrary: hist i)
  case Nil
  then show ?case by simp
next
  case (Cons kv rest)
  obtain k w where kv: "kv = (k, w)" by (cases kv)
  show ?case
  proof (cases i)
    case 0
    with Cons.prems kv obtain x where "w = Some x" by auto
    with 0 kv show ?thesis
      using nanmean_present [of x "hist k"] by (simp add: Let_def)
  next
    case (Suc j)
    with Cons.prems have "j < length rest" "snd (rest ! j) \<noteq> None" by simp_all
    from Cons.IH [OF this] show ?thesis
      using Suc kv by (simp add: Let_def)
  qed
qed

lemma length_add_average_return_1y [simp]:
  "length (add_average_return_1y t) = length t"
  by (simp add: add_average_return_1y_def)

lemma fst_add_average_return_1y [simp]:
  "map fst (add_average_return_1y t) = t"
  by (simp add: add_average_return_1y_def)

lemma average_present:
  assumes "\<forall>r \<in> set t. monthly_past_return r \<noteq> None"
    and "x \<in> set (add_average_return_1y t)"
  shows "snd x \<noteq> None"
proof -
  let ?xs = "map (\<lambda>r. (ticker r, monthly_past_return r)) t"
  from assms(2) obtain i where i: "i < length t" "x = (t ! i, groupby_rolling_mean (\<lambda>k. []) ?xs ! i)"
    by (auto simp: add_average_return_1y_def in_set_conv_nth)
  have "snd (?xs ! i) \<noteq> None"
    using assms(1) i(1) by simp
  then have "groupby_rolling_mean (\<lambda>k. []) ?xs ! i \<noteq> None"
    using i(1) by (intro groupby_rolling_mean_present) simp_all
  with i(2) show ?thesis by simp
qed

lemma fst_filter_fst:
  "map fst (filter (\<lambda>x. P (fst x)) xs) = filter P (map fst xs)"
  by (induction xs) auto

lemma group_rows:
  "map fst (filter (\<lambda>x. date (fst x) = d) (add_average_return_1y t)) = filter (\<lambda>r. date r = d) t"
  using fst_filter_fst [of "\<lambda>r. date r = d" "add_average_return_1y t"] by simp

lemma concat_map_single:
  "distinct ds \<Longrightarrow> d \<in> set ds \<Longrightarrow> concat (map (\<lambda>d'. if d' = d then X else []) ds) = X"
  by (induction ds) auto

lemma concat_map_none:
  "d \<notin> set ds \<Longrightarrow> concat (map (\<lambda>d'. if d' = d then X else []) ds) = []"
  by (induction ds) auto

lemma filter_concat_map:
  "filter P (concat (map f ds)) = concat (map (\<lambda>d. filter P (f d)) ds)"
  by (induction ds) auto

lemma group_dates_set [simp]: "set (group_dates t) = date ` set t"
  by (simp add: group_dates_def)

lemma group_dates_distinct [simp]: "distinct (group_dates t)"
  by (simp add: group_dates_def)

lemma create_signal_concat:
  "create_signal t = concat (map (\<lambda>d. get_top_20_signal (month_group d t)) (group_dates t))"
  by (simp add: create_signal_def month_group_def Let_def case_prod_unfold)

lemma filter_date_group:
  "filter (\<lambda>r. date r = d) (get_top_20_signal (month_group d' t))
     = (if d' = d then get_top_20_signal (month_group d t) else [])"
proof -
  have "\<forall>r \<in> set (get_top_20_signal (month_group d' t)). date r = d'"
  proof
    fix r assume "r \<in> set (get_top_20_signal (month_group d' t))"
    then have "date r \<in> set (map date (get_top_20_signal (month_group d' t)))"
      by simp
    then show "date r = d'"
      unfolding date_get_top_20_signal by (auto simp: month_group_def)
  qed
  then show ?thesis
    by (auto simp: filter_empty_conv filter_id_conv)
qed

lemma create_signal_group:
  assumes "d \<in> date ` set t"
  shows "filter (\<lambda>r. date r = d) (create_signal t) = get_top_20_signal (month_group d t)"
proof -
  have "filter (\<lambda>r. date r = d) (create_signal t)
      = concat (map (\<lambda>d'. if d' = d then get_top_20_signal (month_group d t) else []) (group_dates t))"
    by (simp add: create_signal_concat filter_concat_map filter_date_group)
  also have "\<dots> = get_top_20_signal (month_group d t)"
    by (rule concat_map_single) (simp_all add: assms)
  finally show ?thesis .
qed

lemma create_signal_dates: "date ` set (create_signal t) = date ` set t"
proof
  show "date ` set (create_signal t) \<subseteq> date ` set t"
  proof
    fix d assume "d \<in> date ` set (create_signal t)"
    then obtain r where r: "r \<in> set (create_signal t)" "d = date r"
      by blast
    from r(1) have "\<exists>d' \<in> set (group_dates t). r \<in> set (get_top_20_signal (month_group d' t))"
      unfolding create_signal_concat by simp
    then obtain d' where d': "d' \<in> set (group_dates t)"
      "r \<in> set (get_top_20_signal (month_group d' t))"
      by blast
    from d'(2) have "date r \<in> set (map date (get_top_20_signal (month_group d' t)))"
      by simp
    then have "date r = d'"
      unfolding date_get_top_20_signal by (auto simp: month_group_def)
    with d'(1) r(2) show "d \<in> date ` set t" by simp
  qed
  show "date ` set t \<subseteq> date ` set (create_signal t)"
  proof
    fix d assume d: "d \<in> date ` set t"
    then have "filter (\<lambda>r. date r = d) t \<noteq> []"
      by (auto simp: filter_empty_conv)
    then have "month_group d t \<noteq> []"
      using group_rows [of d t] unfolding month_group_def by (metis list.map_disc_iff)
    then have "get_top_20_signal (month_group d t) \<noteq> []"
      by (metis length_get_top_20_signal length_0_conv)
    then have "filter (\<lambda>r. date r = d) (create_signal t) \<noteq> []"
      using create_signal_group [OF d] by simp
    then show "d \<in> date ` set (create_signal t)"
      by (auto simp: filter_empty_conv)
  qed
qed

lemma group_dates_create_signal: "group_dates (create_signal t) = group_dates t"
proof -
  have "sorted_list_of_set (date ` set (create_signal t)) = sorted_list_of_set (date ` set t)"
    by (simp add: create_signal_dates)
  then show ?thesis
    by (simp add: group_dates_def sorted_list_of_set_sort_remdups [symmetric])
qed

lemma month_group_facts:
  assumes "distinct (map index_of t)" and "\<forall>r \<in> set t. monthly_past_return r \<noteq> None"
  shows "distinct (map (\<lambda>x. index_of (fst x)) (month_group d t))"
    and "\<forall>x \<in> set (month_group d t). snd x \<noteq> None"
    and "length (month_group d t) = length (filter (\<lambda>r. date r = d) t)"
proof -
  have rows: "map fst (month_group d t) = filter (\<lambda>r. date r = d) t"
    unfolding month_group_def by (rule group_rows)
  have "map (\<lambda>x. index_of (fst x)) (month_group d t) = map index_of (map fst (month_group d t))"
    by (simp add: comp_def)
  also have "\<dots> = map index_of (filter (\<lambda>r. date r = d) t)"
    by (simp only: rows)
  finally show "distinct (map (\<lambda>x. index_of (fst x)) (month_group d t))"
    using assms(1) by (simp add: distinct_map_filter)
  show "\<forall>x \<in> set (month_group d t). snd x \<noteq> None"
    using average_present [OF assms(2)] by (auto simp: month_group_def)
  show "length (month_group d t) = length (filter (\<lambda>r. date r = d) t)"
    using rows by (metis length_map)
qed

text \<open>The selection of one month of the signalled table.\<close>

lemma create_signal_month:
  assumes "distinct (map index_of t)" and "\<forall>r \<in> set t. monthly_past_return r \<noteq> None"
    and "d \<in> date ` set t"
  shows "length (filter (\<lambda>r. date r = d) (create_signal t)) = length (filter (\<lambda>r. date r = d) t)"
    and "length (filter signal (filter (\<lambda>r. date r = d) (create_signal t)))
           = min (length (filter (\<lambda>r. date r = d) t)) 20"
    and "\<And>x y. x \<in> set (filter (\<lambda>r. date r = d) (create_signal t)) \<Longrightarrow> signal x \<Longrightarrow>
           y \<in> set (filter (\<lambda>r. date r = d) (create_signal t)) \<Longrightarrow> \<not> signal y \<Longrightarrow>
           \<exists>a b. average_return_1y x = Some a \<and> average_return_1y y = Some b \<and> b \<le> a"
proof -
  note facts = month_group_facts [OF assms(1,2), of d]
  note grp = create_signal_group [OF assms(3)]
  show "length (filter (\<lambda>r. date r = d) (create_signal t)) = length (filter (\<lambda>r. date r = d) t)"
    by (simp add: grp facts(3))
  show "length (filter signal (filter (\<lambda>r. date r = d) (create_signal t)))
           = min (length (filter (\<lambda>r. date r = d) t)) 20"
    unfolding grp using get_top_20_signal_count [OF facts(1,2)] by (simp add: facts(3))
  show "\<exists>a b. average_return_1y x = Some a \<and> average_return_1y y = Some b \<and> b \<le> a"
    if "x \<in> set (filter (\<lambda>r. date r = d) (create_signal t))" "signal x"
      "y \<in> set (filter (\<lambda>r. date r = d) (create_signal t))" "\<not> signal y" for x y
    using that unfolding grp by (rule get_top_20_signal_order [OF facts(1,2)])
qed

lemma distinct_map_sort_key:
  assumes "distinct (map g xs)"
  shows "distinct (map g (sort_key f xs))"
proof -
  have "card (set (map g (sort_key f xs))) = card (set (map g xs))"
    by simp
  also have "\<dots> = length (map g xs)"
    using assms by (rule distinct_card)
  also have "\<dots> = length (map g (sort_key f xs))"
    by simp
  finally show ?thesis by (rule card_distinct)
qed

lemma index_of_add_returns: "map index_of (add_returns t) = map index_of t"
  by (rule nth_equalityI) (simp_all add: add_returns_nth index_of_def price_row.defs)

lemma index_of_suppress_outliers: "map index_of (suppress_outliers t) = map index_of t"
proof (rule nth_equalityI)
  show "length (map index_of (suppress_outliers t)) = length (map index_of t)"
    by simp
  fix i assume "i < length (map index_of (suppress_outliers t))"
  then have i: "i < length t" by simp
  have "nulled_outside_crisis (t ! i) (suppress_outliers t ! i)"
    using suppress_outliers_nulled [of t] i by (simp add: list_all2_conv_all_nth)
  then have "index_of (suppress_outliers t ! i) = index_of (t ! i)"
    by (rule nulled_fields(5))
  with i show "map index_of (suppress_outliers t) ! i = map index_of t ! i"
    by simp
qed

lemma index_of_ffill_price: "map index_of (ffill_price t) = map index_of t"
  by (rule nth_equalityI) (simp_all add: ffill_price_nth index_of_def)

lemma index_of_ffill_past_return: "map index_of (ffill_past_return t) = map index_of t"
  by (rule nth_equalityI) (simp_all add: ffill_past_return_nth index_of_def)

lemma preprocess_prices_distinct:
  assumes "distinct (map index_of raw)"
  shows "distinct (map index_of (preprocess_prices raw))"
proof -
  have "distinct (map index_of (filter_price_outliers raw))"
    unfolding filter_price_outliers_def using assms by (rule distinct_map_filter)
  then have "distinct (map index_of (sort_index (filter_price_outliers raw)))"
    unfolding sort_index_def by (rule distinct_map_sort_key)
  then have "distinct (map index_of (filled_table raw))"
    by (simp add: filled_table_def suppressed_table_def returns_table_def
        index_of_ffill_past_return index_of_ffill_price index_of_suppress_outliers
        index_of_add_returns)
  then show ?thesis
    unfolding preprocess_prices_filter by (rule distinct_map_filter)
qed

lemma preprocess_prices_past_present:
  "\<forall>r \<in> set (preprocess_prices raw). monthly_past_return r \<noteq> None"
  by (auto simp: preprocess_prices_filter no_missing_def notna_Some)

lemma signal_sum_member:
  assumes "(d, n) \<in> set (signal_sum t)"
  shows "d \<in> date ` set t" and "n = length (filter signal (filter (\<lambda>r. date r = d) t))"
  using assms by (auto simp: signal_sum_def)

lemma strategy_returns_map:
  "strategy_returns t =
     map (\<lambda>d. (d, if length (filter signal (filter (\<lambda>r. date r = d) t)) = 0 then None
                  else Some (nansum (map pnl (filter (\<lambda>r. date r = d) t))
                             / real (length (filter signal (filter (\<lambda>r. date r = d) t))))))
       (group_dates t)"
  by (simp add: strategy_returns_def strategy_pnl_series_def signal_sum_def zip_map_map
      zip_same_conv_map del: filter_filter)

lemma strategy_returns_member:
  assumes "(d, v) \<in> set (strategy_returns t)"
  shows "\<exists>p n. (d, n) \<in> set (signal_sum t) \<and> v = (if n = 0 then None else Some (p / real n))"
proof -
  define N where "N = (\<lambda>d. length (filter signal (filter (\<lambda>r. date r = d) t)))"
  define Q where "Q = (\<lambda>d. nansum (map pnl (filter (\<lambda>r. date r = d) t)))"
  have "strategy_returns t
      = map (\<lambda>d. (d, if N d = 0 then None else Some (Q d / real (N d)))) (group_dates t)"
    unfolding N_def Q_def by (rule strategy_returns_map)
  with assms have "(d, v) \<in> (\<lambda>d. (d, if N d = 0 then None else Some (Q d / real (N d)))) ` set (group_dates t)"
    by simp
  then have d: "d \<in> set (group_dates t)" and v: "v = (if N d = 0 then None else Some (Q d / real (N d)))"
    by blast+
  have "(d, N d) \<in> set (signal_sum t)"
    using d unfolding signal_sum_def N_def by (simp add: image_iff del: filter_filter)
  with v show ?thesis by blast
qed

text \<open>The rolling average stored in a row is the mean over its window.\<close>

lemma take_append_take: "take n (xs @ take n ys) = take n (xs @ ys)"
  by (simp add: min_def)

lemma groupby_rolling_mean_nth:
  "i < length xs \<Longrightarrow>
   groupby_rolling_mean hist xs ! i =
     nanmean (take 12 (rev (map snd (filter (\<lambda>x. fst x = fst (xs ! i)) (take (Suc i) xs)))
                       @ hist (fst (xs ! i))))"
proof (induction xs arbitrary: hist i)
  case Nil
  then show ?case by simp
next
  case (Cons kv rest)
  obtain k v where kv: "kv = (k, v)" by (cases kv)
  show ?case
  proof (cases i)
    case 0
    then show ?thesis by (simp add: kv Let_def)
  next
    case (Suc j)
    define k' where "k' = fst (rest ! j)"
    define R where "R = rev (map snd (filter (\<lambda>x. fst x = k') (take (Suc j) rest)))"
    have j: "j < length rest" using Cons.prems Suc by simp
    have IH: "groupby_rolling_mean (hist(k := take 12 (v # hist k))) rest ! j
        = nanmean (take 12 (R @ (hist(k := take 12 (v # hist k))) k'))"
      unfolding R_def k'_def by (rule Cons.IH [OF j])
    have lhs: "groupby_rolling_mean hist (kv # rest) ! i
        = nanmean (take 12 (R @ (hist(k := take 12 (v # hist k))) k'))"
      using IH by (simp add: kv Suc Let_def)
    have rhs: "rev (map snd (filter (\<lambda>x. fst x = fst ((kv # rest) ! i)) (take (Suc i) (kv # rest))))
                 @ hist (fst ((kv # rest) ! i))
        = (if k = k' then R @ (v # hist k) else R @ hist k')"
      by (simp add: Suc kv R_def k'_def)
    show ?thesis
    proof (cases "k = k'")
      case True
      have "take 12 (R @ take 12 (v # hist k)) = take 12 (R @ (v # hist k))"
        by (rule take_append_take)
      with True show ?thesis unfolding lhs rhs by simp
    next
      case False
      then show ?thesis unfolding lhs rhs by simp
    qed
  qed
qed

lemma filter_map_fst_ticker:
  "map snd (filter (\<lambda>x. fst x = k) (map (\<lambda>r. (ticker r, monthly_past_return r)) rs))
     = map monthly_past_return (filter (\<lambda>r. ticker r = k) rs)"
  by (induction rs) auto

lemma add_average_return_1y_nth:
  assumes "i < length t"
  shows "add_average_return_1y t ! i = (t ! i, nanmean (trailing_window t i))"
proof -
  let ?xs = "map (\<lambda>r. (ticker r, monthly_past_return r)) t"
  have len: "i < length ?xs" using assms by simp
  have k: "fst (?xs ! i) = ticker (t ! i)" using assms by simp
  have "groupby_rolling_mean (\<lambda>k. []) ?xs ! i
      = nanmean (take 12 (rev (map snd (filter (\<lambda>x. fst x = ticker (t ! i)) (take (Suc i) ?xs)))))"
    using groupby_rolling_mean_nth [OF len, of "\<lambda>k. []"] unfolding k by simp
  also have "take (Suc i) ?xs = map (\<lambda>r. (ticker r, monthly_past_return r)) (take (Suc i) t)"
    by (simp add: take_map)
  finally have "groupby_rolling_mean (\<lambda>k. []) ?xs ! i = nanmean (trailing_window t i)"
    by (simp only: filter_map_fst_ticker trailing_window_def series_of_def)
  then show ?thesis
    using assms by (simp add: add_average_return_1y_def)
qed

lemma nanmean_present_values:
  "nanmean (map Some ws) = (if ws = [] then None else Some (sum_list ws / real (length ws)))"
proof -
  have "concat (map (\<lambda>v. case v of None \<Rightarrow> [] | Some x \<Rightarrow> [x]) (map Some ws)) = ws"
    by (induction ws) simp_all
  then show ?thesis
    by (cases ws) (simp_all add: nanmean_def Let_def)
qed

lemma trailing_window_present:
  assumes "\<forall>r \<in> set t. monthly_past_return r \<noteq> None" and "i < length t"
  shows "\<exists>ws. trailing_window t i = map Some ws \<and> ws \<noteq> [] \<and> length ws \<le> 12"
proof -
  define rs where "rs = series_of (ticker (t ! i)) (take (Suc i) t)"
  have sub: "set rs \<subseteq> set t"
    unfolding rs_def series_of_def by (auto dest: in_set_takeD)
  have "t ! i \<in> set (take (Suc i) t)"
    using assms(2) by (auto simp: in_set_conv_nth intro!: exI [of _ i])
  then have ne: "rs \<noteq> []"
    unfolding rs_def series_of_def by (auto simp: filter_empty_conv)
  have "\<forall>r \<in> set rs. monthly_past_return r \<noteq> None"
    using assms(1) sub by blast
  then have "map monthly_past_return rs = map Some (map (\<lambda>r. the (monthly_past_return r)) rs)"
    by (induction rs) auto
  then have "take 12 (rev (map monthly_past_return rs))
      = take 12 (rev (map Some (map (\<lambda>r. the (monthly_past_return r)) rs)))"
    by (rule arg_cong)
  also have "\<dots> = map Some (take 12 (rev (map (\<lambda>r. the (monthly_past_return r)) rs)))"
    by (simp only: rev_map take_map)
  finally have "trailing_window t i
      = map Some (take 12 (rev (map (\<lambda>r. the (monthly_past_return r)) rs)))"
    unfolding trailing_window_def rs_def [symmetric] .
  moreover have "take 12 (rev (map (\<lambda>r. the (monthly_past_return r)) rs)) \<noteq> []"
    using ne by simp
  moreover have "length (take 12 (rev (map (\<lambda>r. the (monthly_past_return r)) rs))) \<le> 12"
    by simp
  ultimately show ?thesis by blast
qed

lemma create_signal_row:
  assumes "x \<in> set (create_signal t)"
  shows "\<exists>i<length t. date x = date (t ! i) \<and> ticker x = ticker (t ! i) \<and>
           average_return_1y x = nanmean (trailing_window t i)"
proof -
  from assms have "\<exists>d \<in> set (group_dates t). x \<in> set (get_top_20_signal (month_group d t))"
    unfolding create_signal_concat by simp
  then obtain d where x: "x \<in> set (get_top_20_signal (month_group d t))" by blast
  then obtain g where g: "g \<in> set (month_group d t)"
    "x = monthly_row.extend (fst g) (signal_row.fields (snd g) (selected (month_group d t) (fst g)))"
    by (auto simp: get_top_20_signal_map)
  from g(1) have "g \<in> set (add_average_return_1y t)"
    by (simp add: month_group_def)
  then obtain i where i: "i < length t" "g = add_average_return_1y t ! i"
    by (auto simp: in_set_conv_nth)
  from i have "g = (t ! i, nanmean (trailing_window t i))"
    by (simp add: add_average_return_1y_nth)
  with g(2) i(1) show ?thesis by auto
qed

section \<open>The signal builder on the example tables\<close>

lemma t2m_signals:
  "map (\<lambda>r. (date r, ticker r, average_return_1y r, signal r)) (create_signal table_two_months) =
     [((2015, 1, 31), ''T01'', Some (1 / 20), True),
      ((2015, 1, 31), ''T02'', Some (0), False),
      ((2015, 1, 31), ''T03'', Some (13 / 100), True),
      ((2015, 1, 31), ''T04'', Some (7 / 50), True),
      ((2015, 1, 31), ''T05'', Some (3 / 20), True),
      ((2015, 1, 31), ''T06'', Some (4 / 25), True),
      ((2015, 1, 31), ''T07'', Some (17 / 100), True),
      ((2015, 1, 31), ''T08'', Some (9 / 50), True),
      ((2015, 1, 31), ''T09'', Some (19 / 100), True),
      ((2015, 1, 31), ''T10'', Some (1 / 5), True),
      ((2015, 1, 31), ''T11'', Some (21 / 100), True),
      ((2015, 1, 31), ''T12'', Some (11 / 50), True),
      ((2015, 1, 31), ''T13'', Some (23 / 100), True),
      ((2015, 1, 31), ''T14'', Some (6 / 25), True),
      ((2015, 1, 31), ''T15'', Some (1 / 4), True),
      ((2015, 1, 31), ''T16'', Some (13 / 50), True),
      ((2015, 1, 31), ''T17'', Some (27 / 100), True),
      ((2015, 1, 31), ''T18'', Some (7 / 25), True),
      ((2015, 1, 31), ''T19'', Some (29 / 100), True),
      ((2015, 1, 31), ''T20'', Some (3 / 10), True),
      ((2015, 1, 31), ''T21'', Some (31 / 100), True),
      ((2015, 2, 28), ''T01'', Some (3 / 100), True),
      ((2015, 2, 28), ''T02'', Some (1 / 100), False),
      ((2015, 2, 28), ''T03'', Some (13 / 100), True),
      ((2015, 2, 28), ''T04'', Some (7 / 50), True),
      ((2015, 2, 28), ''T05'', Some (3 / 20), True),
      ((2015, 2, 28), ''T06'', Some (4 / 25), True),
      ((2015, 2, 28), ''T07'', Some (17 / 100), True),
      ((2015, 2, 28), ''T08'', Some (9 / 50), True),
      ((2015, 2, 28), ''T09'', Some (19 / 100), True),
      ((2015, 2, 28), ''T10'', Some (1 / 5), True),
      ((2015, 2, 28), ''T11'', Some (21 / 100), True),
      ((2015, 2, 28), ''T12'', Some (11 / 50), True),
      ((2015, 2, 28), ''T13'', Some (23 / 100), True),
      ((2015, 2, 28), ''T14'', Some (6 / 25), True),
      ((2015, 2, 28), ''T15'', Some (1 / 4), True),
      ((2015, 2, 28), ''T16'', Some (13 / 50), True),
      ((2015, 2, 28), ''T17'', Some (27 / 100), True),
      ((2015, 2, 28), ''T18'', Some (7 / 25), True),
      ((2015, 2, 28), ''T19'', Some (29 / 100), True),
      ((2015, 2, 28), ''T20'', Some (3 / 10), True),
      ((2015, 2, 28), ''T21'', Some (31 / 100), True)]"
  apply (simp add: create_signal_def table_two_months_def row_of_def group_dates_def
      add_average_return_1y_def nanmean_def Let_def)
  apply (simp add: get_top_20_signal_def nlargest_index_def index_of_def Let_def
      monthly_row.defs signal_row.defs)
  done


lemma t2m_distinct: "distinct (map index_of table_two_months)"
  by (simp add: table_two_months_def row_of_def index_of_def)

lemma t2m_present: "\<forall>r \<in> set table_two_months. monthly_past_return r \<noteq> None"
  by (simp add: table_two_months_def row_of_def del: not_None_eq)

lemma t2m_feb: "length (filter (\<lambda>r. date r = (2015, 2, 28)) table_two_months) = 21"
  by (simp add: table_two_months_def row_of_def)

lemma t2m_date: "(2015, 2, 28) \<in> date ` set table_two_months"
  by (simp add: table_two_months_def row_of_def)

lemma t2m_bare:
  "monthly_past_return (table_two_months ! 21) = Some (1 / 100)"
  "monthly_past_return (table_two_months ! 22) = Some (1 / 50)"
  "trailing_window table_two_months 21 = [Some (1 / 100), Some (1 / 20)]"
  "trailing_window table_two_months 22 = [Some (1 / 50), Some 0]"
  by (simp_all add: table_two_months_def row_of_def trailing_window_def series_of_def)

lemma small_distinct: "distinct (map index_of (preprocess_prices table_crisis_carry))"
  by (simp add: preprocess_prices_crisis_carry index_of_def)

lemma small_present:
  "\<forall>r \<in> set (preprocess_prices table_crisis_carry). monthly_past_return r \<noteq> None"
  by (simp add: preprocess_prices_crisis_carry del: not_None_eq)

lemma small_month:
  "(2010, 1, 31) \<in> date ` set (preprocess_prices table_crisis_carry)"
  "length (filter (\<lambda>r. date r = (2010, 1, 31)) (preprocess_prices table_crisis_carry)) = 1"
  by (simp_all add: preprocess_prices_crisis_carry)

lemma signalled_crisis_carry:
  "signal_sum (create_signal (preprocess_prices table_crisis_carry))
     = [((2009, 12, 31), 1), ((2010, 1, 31), 1)]"
  unfolding preprocess_prices_crisis_carry
  apply (simp add: create_signal_def group_dates_def add_average_return_1y_def nanmean_def Let_def)
  apply (simp add: get_top_20_signal_def signal_sum_def group_dates_def monthly_row.defs signal_row.defs)
  done

lemma strategy_returns_crisis_carry:
  "strategy_returns (create_signal (preprocess_prices table_crisis_carry))
     = [((2009, 12, 31), Some 2), ((2010, 1, 31), Some (1 / 15))]"
  unfolding preprocess_prices_crisis_carry
  apply (simp add: create_signal_def group_dates_def add_average_return_1y_def nanmean_def Let_def)
  apply (simp add: get_top_20_signal_def strategy_returns_def strategy_pnl_series_def signal_sum_def
      group_dates_def pnl_def nansum_def monthly_row.defs signal_row.defs)
  done

section \<open>Claims on the signal\<close>

text \<open>
  Claim C2. Let the table handed to the signal builder have one row per (date, ticker)
  and no missing trailing return, as the preprocessed table has. For every month d of the
  table, the signalled table has the N rows of that month, and the average stored in each
  of them is the mean of the trailing returns of the up to 12 latest records of its
  ticker, ending at the record itself. If N < 20 all N rows have signal = true; otherwise
  exactly 20 have, and the rolling average of every selected row is at least the rolling
  average of every row that is not selected.
\<close>

theorem top_20_selected_each_month:
  assumes "distinct (map index_of t)"
    and "\<forall>r \<in> set t. monthly_past_return r \<noteq> None"
    and "d \<in> date ` set t"
  shows "length (filter (\<lambda>r. date r = d) (create_signal t)) = length (filter (\<lambda>r. date r = d) t) \<and>
    (\<forall>x \<in> set (filter (\<lambda>r. date r = d) (create_signal t)).
       \<exists>i<length t. date x = date (t ! i) \<and> ticker x = ticker (t ! i) \<and>
         (\<exists>ws. trailing_window t i = map Some ws \<and> ws \<noteq> [] \<and> length ws \<le> 12 \<and>
               average_return_1y x = Some (sum_list ws / real (length ws)))) \<and>
    (length (filter (\<lambda>r. date r = d) t) < 20 \<longrightarrow>
       length (filter signal (filter (\<lambda>r. date r = d) (create_signal t)))
         = length (filter (\<lambda>r. date r = d) t)) \<and>
    (\<not> length (filter (\<lambda>r. date r = d) t) < 20 \<longrightarrow>
       length (filter signal (filter (\<lambda>r. date r = d) (create_signal t))) = 20 \<and>
       (\<forall>x \<in> set (filter (\<lambda>r. date r = d) (create_signal t)).
        \<forall>y \<in> set (filter (\<lambda>r. date r = d) (create_signal t)).
          signal x \<and> \<not> signal y \<longrightarrow>
            (\<exists>a b. average_return_1y x = Some a \<and> average_return_1y y = Some b \<and> b \<le> a)))"
proof -
  note m = create_signal_month [OF assms]
  have ord: "\<forall>x \<in> set (filter (\<lambda>r. date r = d) (create_signal t)).
        \<forall>y \<in> set (filter (\<lambda>r. date r = d) (create_signal t)).
          signal x \<and> \<not> signal y \<longrightarrow>
            (\<exists>a b. average_return_1y x = Some a \<and> average_return_1y y = Some b \<and> b \<le> a)"
    using m(3) by blast
  have avg: "\<forall>x \<in> set (filter (\<lambda>r. date r = d) (create_signal t)).
       \<exists>i<length t. date x = date (t ! i) \<and> ticker x = ticker (t ! i) \<and>
         (\<exists>ws. trailing_window t i = map Some ws \<and> ws \<noteq> [] \<and> length ws \<le> 12 \<and>
               average_return_1y x = Some (sum_list ws / real (length ws)))"
  proof
    fix x assume "x \<in> set (filter (\<lambda>r. date r = d) (create_signal t))"
    then have "x \<in> set (create_signal t)" by simp
    from create_signal_row [OF this] obtain i where i: "i < length t"
      "date x = date (t ! i)" "ticker x = ticker (t ! i)"
      "average_return_1y x = nanmean (trailing_window t i)" by blast
    from trailing_window_present [OF assms(2) i(1)] obtain ws where
      ws: "trailing_window t i = map Some ws" "ws \<noteq> []" "length ws \<le> 12" by blast
    have "average_return_1y x = Some (sum_list ws / real (length ws))"
      unfolding i(4) ws(1) using ws(2) by (simp add: nanmean_present_values)
    with i ws show "\<exists>i<length t. date x = date (t ! i) \<and> ticker x = ticker (t ! i) \<and>
         (\<exists>ws. trailing_window t i = map Some ws \<and> ws \<noteq> [] \<and> length ws \<le> 12 \<and>
               average_return_1y x = Some (sum_list ws / real (length ws)))"
      by blast
  qed
  show ?thesis
    using m(1) m(2) ord avg by (simp add: min_def)
qed

theorem top_20_selected_each_month_witness:
  "distinct (map index_of table_two_months) \<and>
   length (filter (\<lambda>r. date r = (2015, 2, 28)) table_two_months) = 21 \<and>
   length (filter signal (filter (\<lambda>r. date r = (2015, 2, 28)) (create_signal table_two_months))) = 20 \<and>
   monthly_past_return (table_two_months ! 21) = Some (1 / 100) \<and>
   monthly_past_return (table_two_months ! 22) = Some (1 / 50) \<and>
   trailing_window table_two_months 21 = [Some (1 / 100), Some (1 / 20)] \<and>
   trailing_window table_two_months 22 = [Some (1 / 50), Some 0] \<and>
   ticker (create_signal table_two_months ! 21) = ''T01'' \<and>
   ticker (create_signal table_two_months ! 22) = ''T02'' \<and>
   average_return_1y (create_signal table_two_months ! 21) = Some (3 / 100) \<and>
   average_return_1y (create_signal table_two_months ! 22) = Some (1 / 100) \<and>
   signal (create_signal table_two_months ! 21) \<and>
   \<not> signal (create_signal table_two_months ! 22) \<and>
   (\<exists>a b. average_return_1y (create_signal table_two_months ! 21) = Some a \<and>
          average_return_1y (create_signal table_two_months ! 22) = Some b \<and> b \<le> a) \<and>
   (\<exists>i<length table_two_months.
       date (create_signal table_two_months ! 22) = date (table_two_months ! i) \<and>
       ticker (create_signal table_two_months ! 22) = ticker (table_two_months ! i) \<and>
       (\<exists>ws. trailing_window table_two_months i = map Some ws \<and> ws \<noteq> [] \<and> length ws \<le> 12 \<and>
          average_return_1y (create_signal table_two_months ! 22)
            = Some (sum_list ws / real (length ws)))) \<and>
   length (filter (\<lambda>r. date r = (2010, 1, 31)) (preprocess_prices table_crisis_carry)) = 1 \<and>
   length (filter signal (filter (\<lambda>r. date r = (2010, 1, 31))
      (create_signal (preprocess_prices table_crisis_carry)))) = 1"
proof -
  let ?cs = "create_signal table_two_months"
  let ?feb = "filter (\<lambda>r. date r = (2015, 2, 28)) ?cs"
  note feb = top_20_selected_each_month [OF t2m_distinct t2m_present t2m_date]
  note small = top_20_selected_each_month [OF small_distinct small_present small_month(1)]
  have len: "length ?cs = 42"
    using arg_cong [OF t2m_signals, of length] by simp
  have x: "date (?cs ! 21) = (2015, 2, 28)" "ticker (?cs ! 21) = ''T01''"
    "average_return_1y (?cs ! 21) = Some (3 / 100)" "signal (?cs ! 21)"
    using arg_cong [OF t2m_signals, of "\<lambda>l. l ! 21"] len by simp_all
  have y: "date (?cs ! 22) = (2015, 2, 28)" "ticker (?cs ! 22) = ''T02''"
    "average_return_1y (?cs ! 22) = Some (1 / 100)" "\<not> signal (?cs ! 22)"
    using arg_cong [OF t2m_signals, of "\<lambda>l. l ! 22"] len by simp_all
  have mx: "?cs ! 21 \<in> set ?feb" using x(1) len by simp
  have my: "?cs ! 22 \<in> set ?feb" using y(1) len by simp
  have big: "\<not> length (filter (\<lambda>r. date r = (2015, 2, 28)) table_two_months) < 20"
    by (simp add: t2m_feb)
  from feb [THEN conjunct2, THEN conjunct2, THEN conjunct2] big
  have c20: "length (filter signal ?feb) = 20"
    and all: "\<forall>x \<in> set ?feb. \<forall>y \<in> set ?feb. signal x \<and> \<not> signal y \<longrightarrow>
            (\<exists>a b. average_return_1y x = Some a \<and> average_return_1y y = Some b \<and> b \<le> a)"
    by blast+
  from all mx my x(4) y(4)
  have ord: "\<exists>a b. average_return_1y (?cs ! 21) = Some a \<and>
          average_return_1y (?cs ! 22) = Some b \<and> b \<le> a"
    by blast
  from feb [THEN conjunct2, THEN conjunct1, THEN bspec, OF my]
  have win: "\<exists>i<length table_two_months.
       date (?cs ! 22) = date (table_two_months ! i) \<and>
       ticker (?cs ! 22) = ticker (table_two_months ! i) \<and>
       (\<exists>ws. trailing_window table_two_months i = map Some ws \<and> ws \<noteq> [] \<and> length ws \<le> 12 \<and>
          average_return_1y (?cs ! 22) = Some (sum_list ws / real (length ws)))" .
  from small [THEN conjunct2, THEN conjunct2, THEN conjunct1] small_month(2)
  have c1: "length (filter signal (filter (\<lambda>r. date r = (2010, 1, 31))
      (create_signal (preprocess_prices table_crisis_carry)))) = 1"
    by simp
  from t2m_distinct t2m_feb c20 t2m_bare x(2) y(2) x(3) y(3) x(4) y(4) ord win small_month(2) c1
  show ?thesis by (intro conjI)
qed

text \<open>
  Claim C10. For a monthly table with one row per (date, ticker), every month of the
  signalled table of the pipeline has min (N, 20) selected rows, N its number of rows,
  which is at least 1; so the divisor of the strategy return is never zero and the
  return of every month is a number.
\<close>

theorem selected_count_never_zero:
  assumes "distinct (map index_of raw)"
  shows "(\<forall>(d, n) \<in> set (signal_sum (create_signal (preprocess_prices raw))).
            1 \<le> n \<and> n = min (length (filter (\<lambda>r. date r = d) (preprocess_prices raw))) 20) \<and>
         (\<forall>(d, v) \<in> set (strategy_returns (create_signal (preprocess_prices raw))). v \<noteq> None)"
proof -
  define P where "P = preprocess_prices raw"
  have dP: "distinct (map index_of P)"
    unfolding P_def using assms by (rule preprocess_prices_distinct)
  have pP: "\<forall>r \<in> set P. monthly_past_return r \<noteq> None"
    unfolding P_def by (rule preprocess_prices_past_present)
  have cnt: "1 \<le> n \<and> n = min (length (filter (\<lambda>r. date r = d) P)) 20"
    if "(d, n) \<in> set (signal_sum (create_signal P))" for d n
  proof -
    from signal_sum_member [OF that] have d: "d \<in> date ` set P"
      and n: "n = length (filter signal (filter (\<lambda>r. date r = d) (create_signal P)))"
      by (simp_all add: create_signal_dates)
    have "filter (\<lambda>r. date r = d) P \<noteq> []"
      using d by (auto simp: filter_empty_conv)
    then have "1 \<le> length (filter (\<lambda>r. date r = d) P)"
      by (simp add: Suc_le_eq)
    moreover have "n = min (length (filter (\<lambda>r. date r = d) P)) 20"
      unfolding n by (rule create_signal_month(2) [OF dP pP d])
    ultimately show ?thesis by simp
  qed
  have ret: "v \<noteq> None" if "(d, v) \<in> set (strategy_returns (create_signal P))" for d v
  proof -
    from strategy_returns_member [OF that] obtain p n where
      n: "(d, n) \<in> set (signal_sum (create_signal P))"
      and v: "v = (if n = 0 then None else Some (p / real n))" by blast
    from cnt [OF n] have "n \<noteq> 0" by simp
    with v show ?thesis by simp
  qed
  from cnt ret show ?thesis
    unfolding P_def by blast
qed

theorem selected_count_never_zero_witness:
  "distinct (map index_of table_crisis_carry) \<and>
   ((2010, 1, 31), 1) \<in> set (signal_sum (create_signal (preprocess_prices table_crisis_carry))) \<and>
   (1::nat) \<le> 1 \<and>
   1 = min (length (filter (\<lambda>r. date r = (2010, 1, 31)) (preprocess_prices table_crisis_carry))) 20 \<and>
   ((2010, 1, 31), Some (1 / 15))
      \<in> set (strategy_returns (create_signal (preprocess_prices table_crisis_carry)))"
proof -
  have d: "distinct (map index_of table_crisis_carry)"
    by (simp add: table_crisis_carry_def index_of_def)
  have m: "((2010, 1, 31), 1) \<in> set (signal_sum (create_signal (preprocess_prices table_crisis_carry)))"
    by (simp add: signalled_crisis_carry)
  have r: "((2010, 1, 31), Some (1 / 15))
      \<in> set (strategy_returns (create_signal (preprocess_prices table_crisis_carry)))"
    by (simp add: strategy_returns_crisis_carry)
  from selected_count_never_zero [OF d, THEN conjunct1, THEN bspec, OF m]
  have "1 = min (length (filter (\<lambda>r. date r = (2010, 1, 31)) (preprocess_prices table_crisis_carry))) 20"
    by simp
  with d m r show ?thesis by simp
qed

section \<open>The bounds after the forward fill\<close>

text \<open>The value that the grouped forward fill stores in a row is the latest present
  value of the same ticker at or before the row; the table it runs on is in (date, ticker)
  order.\<close>

lemma groupby_ffill_latest:
  "i < length xs \<Longrightarrow> groupby_ffill seen xs ! i = Some v \<Longrightarrow>
     (\<exists>j\<le>i. xs ! j = (fst (xs ! i), Some v) \<and>
        (\<forall>m. j < m \<and> m \<le> i \<and> fst (xs ! m) = fst (xs ! i) \<longrightarrow> snd (xs ! m) = None)) \<or>
     (seen (fst (xs ! i)) = Some v \<and>
        (\<forall>m\<le>i. fst (xs ! m) = fst (xs ! i) \<longrightarrow> snd (xs ! m) = None))"
proof (induction xs arbitrary: seen i)
  case Nil
  then show ?case by simp
next
  case (Cons kv rest)
  obtain k w where kv: "kv = (k, w)" by (cases kv)
  show ?case
  proof (cases i)
    case 0
    with Cons.prems kv show ?thesis by (cases w) auto
  next
    case (Suc i')
    define seen' where "seen' = (case w of Some x \<Rightarrow> seen(k \<mapsto> x) | None \<Rightarrow> seen)"
    define k' where "k' = fst (rest ! i')"
    have ki: "fst ((kv # rest) ! i) = k'" using Suc by (simp add: k'_def)
    have res: "groupby_ffill seen' rest ! i' = Some v"
      using Cons.prems(2) Suc kv by (cases w) (simp_all add: seen'_def)
    have "i' < length rest" using Cons.prems(1) Suc by simp
    from Cons.IH [OF this res, folded k'_def]
    consider (inner) j where "j \<le> i'" "rest ! j = (k', Some v)"
        "\<forall>m. j < m \<and> m \<le> i' \<and> fst (rest ! m) = k' \<longrightarrow> snd (rest ! m) = None"
      | (state) "seen' k' = Some v"
        "\<forall>m\<le>i'. fst (rest ! m) = k' \<longrightarrow> snd (rest ! m) = None"
      by blast
    then show ?thesis
    proof cases
      case inner
      have "\<forall>m. Suc j < m \<and> m \<le> i \<and> fst ((kv # rest) ! m) = k' \<longrightarrow> snd ((kv # rest) ! m) = None"
      proof (intro allI impI)
        fix m assume m: "Suc j < m \<and> m \<le> i \<and> fst ((kv # rest) ! m) = k'"
        then obtain m' where m': "m = Suc m'" by (cases m) auto
        with m Suc inner(3) show "snd ((kv # rest) ! m) = None" by simp
      qed
      moreover have "Suc j \<le> i" "(kv # rest) ! Suc j = (k', Some v)"
        using inner(1,2) Suc by simp_all
      ultimately show ?thesis unfolding ki by blast
    next
      case state
      have later: "snd ((kv # rest) ! m) = None"
        if "0 < m" "m \<le> i" "fst ((kv # rest) ! m) = k'" for m
      proof -
        from that(1) obtain m' where m': "m = Suc m'" by (cases m) auto
        with that Suc state(2) show ?thesis by simp
      qed
      show ?thesis
      proof (cases "w = Some v \<and> k = k'")
        case True
        then have "(kv # rest) ! 0 = (k', Some v)" using kv by simp
        moreover have "\<forall>m. 0 < m \<and> m \<le> i \<and> fst ((kv # rest) ! m) = k' \<longrightarrow> snd ((kv # rest) ! m) = None"
          using later by blast
        ultimately show ?thesis unfolding ki by blast
      next
        case False
        with state(1) have old: "seen k' = Some v" and first: "k = k' \<longrightarrow> w = None"
          by (cases w; auto simp: seen'_def split: if_splits)+
        have "\<forall>m\<le>i. fst ((kv # rest) ! m) = k' \<longrightarrow> snd ((kv # rest) ! m) = None"
        proof (intro allI impI)
          fix m assume m: "m \<le> i" "fst ((kv # rest) ! m) = k'"
          show "snd ((kv # rest) ! m) = None"
          proof (cases m)
            case 0
            with m(2) first kv show ?thesis by simp
          next
            case (Suc m')
            then show ?thesis using later [of m] m by simp
          qed
        qed
        with old show ?thesis unfolding ki by blast
      qed
    qed
  qed
qed

lemma filled_past_latest:
  assumes "i < length t"
    and "monthly_past_return (ffill_past_return (ffill_price t) ! i) = Some v"
  shows "\<exists>j\<le>i. ticker (t ! j) = ticker (t ! i) \<and> monthly_past_return (t ! j) = Some v \<and>
           (\<forall>m. j < m \<and> m \<le> i \<and> ticker (t ! m) = ticker (t ! i) \<longrightarrow> monthly_past_return (t ! m) = None)"
proof -
  let ?xs = "map (\<lambda>r. (ticker r, monthly_past_return r)) t"
  have len: "i < length ?xs" using assms(1) by simp
  have "groupby_ffill Map.empty ?xs ! i = Some v"
    using assms filled_row(5) [of i t] by simp
  from groupby_ffill_latest [OF len this]
  obtain j where j: "j \<le> i" "?xs ! j = (fst (?xs ! i), Some v)"
    "\<forall>m. j < m \<and> m \<le> i \<and> fst (?xs ! m) = fst (?xs ! i) \<longrightarrow> snd (?xs ! m) = None"
    by auto
  have a: "ticker (t ! j) = ticker (t ! i)" "monthly_past_return (t ! j) = Some v"
    using j(1,2) assms(1) by simp_all
  have b: "\<forall>m. j < m \<and> m \<le> i \<and> ticker (t ! m) = ticker (t ! i) \<longrightarrow> monthly_past_return (t ! m) = None"
  proof (intro allI impI)
    fix m assume m: "j < m \<and> m \<le> i \<and> ticker (t ! m) = ticker (t ! i)"
    then have "m < length t" using assms(1) by simp
    with m assms(1) have "j < m \<and> m \<le> i \<and> fst (?xs ! m) = fst (?xs ! i)" by simp
    with j(3) have "snd (?xs ! m) = None" by blast
    with \<open>m < length t\<close> show "monthly_past_return (t ! m) = None" by simp
  qed
  from j(1) a b show ?thesis by blast
qed

lemma suppressed_table_sorted: "sorted (map index_of (suppressed_table raw))"
proof -
  have "map index_of (suppressed_table raw)
      = map index_of (sort_index (filter_price_outliers raw))"
    by (simp add: suppressed_table_def returns_table_def index_of_suppress_outliers
        index_of_add_returns)
  then show ?thesis by (simp add: sort_index_def)
qed

lemma lex_fst_le: "(a :: 'a :: linorder, b :: 'b :: linorder) \<le> (c, d) \<Longrightarrow> a \<le> c"
  by (auto simp: less_eq_prod_def)

lemma suppressed_table_date_mono:
  assumes "j \<le> i" and "i < length (suppressed_table raw)"
  shows "date (suppressed_table raw ! j) \<le> date (suppressed_table raw ! i)"
proof -
  have "map index_of (suppressed_table raw) ! j \<le> map index_of (suppressed_table raw) ! i"
    using suppressed_table_sorted [of raw] assms by (simp add: sorted_iff_nth_mono)
  then have "index_of (suppressed_table raw ! j) \<le> index_of (suppressed_table raw ! i)"
    using assms by simp
  then show ?thesis
    unfolding index_of_def by (rule lex_fst_le)
qed

lemma preprocess_prices_2007:
  "preprocess_prices table_2007 =
     [\<lparr>date = (2007, 11, 30), ticker = ''A'', price = Some 11, extra = [],
        monthly_past_return = Some (1 / 10), monthly_future_return = Some (1 / 11)\<rparr>]"
  apply (simp add: preprocess_prices_def filled_table_def suppressed_table_def table_2007_def
      eval_returns)
  apply (simp add: eval_suppress)
  apply (simp add: ffill_price_def ffill_past_return_def)
  apply (simp add: dropna_def dropna_future_def no_missing_def notna_def)
  done


text \<open>
  Claim C3, amended. In the table right after the suppression loop, every record outside
  the crisis window has its trailing and its forward return within [-0.5, 1] or missing.
  In the output table, every record outside the crisis window has its forward return
  within [-0.5, 1], and its trailing return is within [-0.5, 1] or is the value the
  forward fill carried into it: the trailing return of an earlier crisis-window record
  of the same ticker, no later in date, with every record of the ticker between the two
  (and the record itself) missing its trailing return after the suppression. So every
  output record dated before 2008-01-01 keeps both bounds.
\<close>

theorem bounds_outside_crisis:
  "(\<forall>r \<in> set (suppressed_table raw). \<not> crisis_mask (date r) \<longrightarrow>
      within_bounds (monthly_past_return r) \<and> within_bounds (monthly_future_return r)) \<and>
   (\<forall>r \<in> set (preprocess_prices raw). \<not> crisis_mask (date r) \<longrightarrow>
      (\<exists>y. monthly_future_return r = Some y \<and> - 0.5 \<le> y \<and> y \<le> 1) \<and>
      (\<exists>x. monthly_past_return r = Some x \<and>
         ((- 0.5 \<le> x \<and> x \<le> 1) \<or>
          (\<exists>i j. j < i \<and> i < length (suppressed_table raw) \<and> r = filled_table raw ! i \<and>
              ticker (suppressed_table raw ! j) = ticker r \<and>
              crisis_mask (date (suppressed_table raw ! j)) \<and>
              date (suppressed_table raw ! j) \<le> date r \<and>
              monthly_past_return (suppressed_table raw ! j) = Some x \<and>
              (\<forall>m. j < m \<and> m \<le> i \<and> ticker (suppressed_table raw ! m) = ticker r \<longrightarrow>
                   monthly_past_return (suppressed_table raw ! m) = None))))) \<and>
   (\<forall>r \<in> set (preprocess_prices raw). date r < (2008, 1, 1) \<longrightarrow>
      (\<exists>x. monthly_past_return r = Some x \<and> - 0.5 \<le> x \<and> x \<le> 1) \<and>
      (\<exists>y. monthly_future_return r = Some y \<and> - 0.5 \<le> y \<and> y \<le> 1))"
proof -
  define S where "S = suppressed_table raw"
  define F where "F = filled_table raw"
  have F: "F = ffill_past_return (ffill_price S)"
    by (simp add: F_def filled_table_def S_def)
  have first: "\<forall>r \<in> set S. \<not> crisis_mask (date r) \<longrightarrow>
      within_bounds (monthly_past_return r) \<and> within_bounds (monthly_future_return r)"
    unfolding S_def using suppressed_bounded by blast
  have main: "(\<exists>y. monthly_future_return r = Some y \<and> - 0.5 \<le> y \<and> y \<le> 1) \<and>
      (\<exists>x. monthly_past_return r = Some x \<and>
         ((- 0.5 \<le> x \<and> x \<le> 1) \<or>
          (\<exists>i j. j < i \<and> i < length S \<and> r = F ! i \<and>
              ticker (S ! j) = ticker r \<and> crisis_mask (date (S ! j)) \<and>
              date (S ! j) \<le> date r \<and> monthly_past_return (S ! j) = Some x \<and>
              (\<forall>m. j < m \<and> m \<le> i \<and> ticker (S ! m) = ticker r \<longrightarrow>
                   monthly_past_return (S ! m) = None))))"
    if r: "r \<in> set (preprocess_prices raw)" and nc: "\<not> crisis_mask (date r)" for r
  proof -
    from r have mem: "r \<in> set F" and complete: "no_missing r"
      by (simp_all add: preprocess_prices_filter F_def)
    from mem obtain i where i: "i < length S" "r = F ! i"
      unfolding F by (auto simp: in_set_conv_nth)
    have Si: "S ! i \<in> set S" using i(1) by simp
    have dt: "date r = date (S ! i)" and tk: "ticker r = ticker (S ! i)"
      and fut: "monthly_future_return r = monthly_future_return (S ! i)"
      using filled_row [OF i(1)] i(2) unfolding F by simp_all
    from complete obtain x y where x: "monthly_past_return r = Some x"
      and y: "monthly_future_return r = Some y"
      by (auto simp: no_missing_def notna_Some)
    have "within_bounds (monthly_future_return (S ! i))"
      using first Si nc dt by simp
    with y fut have yb: "- 0.5 \<le> y \<and> y \<le> 1"
      by (simp add: within_bounds_def)
    from filled_past_latest [OF i(1)] x i(2) F
    obtain j where j: "j \<le> i" "ticker (S ! j) = ticker (S ! i)"
      "monthly_past_return (S ! j) = Some x"
      "\<forall>m. j < m \<and> m \<le> i \<and> ticker (S ! m) = ticker (S ! i) \<longrightarrow> monthly_past_return (S ! m) = None"
      by auto
    have Sj: "S ! j \<in> set S" using j(1) i(1) by simp
    have "(- 0.5 \<le> x \<and> x \<le> 1) \<or>
          (\<exists>i j. j < i \<and> i < length S \<and> r = F ! i \<and>
              ticker (S ! j) = ticker r \<and> crisis_mask (date (S ! j)) \<and>
              date (S ! j) \<le> date r \<and> monthly_past_return (S ! j) = Some x \<and>
              (\<forall>m. j < m \<and> m \<le> i \<and> ticker (S ! m) = ticker r \<longrightarrow>
                   monthly_past_return (S ! m) = None))"
    proof (cases "crisis_mask (date (S ! j))")
      case True
      with nc dt have "j \<noteq> i" by auto
      with j(1) have lt: "j < i" by simp
      have mono: "date (S ! j) \<le> date r"
        unfolding dt S_def using j(1) i(1) by (intro suppressed_table_date_mono) (simp_all add: S_def)
      from lt i True mono j(2,3,4) tk show ?thesis by auto
    next
      case False
      then have "within_bounds (monthly_past_return (S ! j))"
        using first Sj by simp
      with j(3) show ?thesis by (simp add: within_bounds_def)
    qed
    with x y yb show ?thesis by blast
  qed
  have early: "(\<exists>x. monthly_past_return r = Some x \<and> - 0.5 \<le> x \<and> x \<le> 1) \<and>
      (\<exists>y. monthly_future_return r = Some y \<and> - 0.5 \<le> y \<and> y \<le> 1)"
    if r: "r \<in> set (preprocess_prices raw)" and before: "date r < (2008, 1, 1)" for r
  proof -
    from before have nc: "\<not> crisis_mask (date r)"
      by (auto simp: crisis_mask_def)
    have no: "\<not> (crisis_mask d \<and> d \<le> date r)" for d
      using before by (auto simp: crisis_mask_def)
    from main [OF r nc] no show ?thesis by blast
  qed
  from first main early show ?thesis
    unfolding S_def F_def by blast
qed

theorem bounds_outside_crisis_witness:
  "preprocess_prices table_crisis_carry ! 1 \<in> set (preprocess_prices table_crisis_carry) \<and>
   \<not> crisis_mask (date (preprocess_prices table_crisis_carry ! 1)) \<and>
   suppressed_table table_crisis_carry ! 2 \<in> set (suppressed_table table_crisis_carry) \<and>
   \<not> crisis_mask (date (suppressed_table table_crisis_carry ! 2)) \<and>
   within_bounds (monthly_past_return (suppressed_table table_crisis_carry ! 2)) \<and>
   (\<exists>y. monthly_future_return (preprocess_prices table_crisis_carry ! 1) = Some y \<and>
        - 0.5 \<le> y \<and> y \<le> 1) \<and>
   monthly_past_return (preprocess_prices table_crisis_carry ! 1) = Some (3 / 2) \<and>
   (\<exists>i j. j < i \<and> i < length (suppressed_table table_crisis_carry) \<and>
      preprocess_prices table_crisis_carry ! 1 = filled_table table_crisis_carry ! i \<and>
      ticker (suppressed_table table_crisis_carry ! j)
        = ticker (preprocess_prices table_crisis_carry ! 1) \<and>
      crisis_mask (date (suppressed_table table_crisis_carry ! j)) \<and>
      date (suppressed_table table_crisis_carry ! j)
        \<le> date (preprocess_prices table_crisis_carry ! 1) \<and>
      monthly_past_return (suppressed_table table_crisis_carry ! j) = Some (3 / 2)) \<and>
   preprocess_prices table_2007 ! 0 \<in> set (preprocess_prices table_2007) \<and>
   date (preprocess_prices table_2007 ! 0) < (2008, 1, 1) \<and>
   (\<exists>x. monthly_past_return (preprocess_prices table_2007 ! 0) = Some x \<and>
        - 0.5 \<le> x \<and> x \<le> 1)"
proof -
  let ?r = "preprocess_prices table_crisis_carry ! 1"
  let ?S = "suppressed_table table_crisis_carry"
  have m1: "?r \<in> set (preprocess_prices table_crisis_carry)"
    by (simp add: preprocess_prices_crisis_carry)
  have n1: "\<not> crisis_mask (date ?r)"
    by (simp add: preprocess_prices_crisis_carry crisis_mask_def)
  have p1: "monthly_past_return ?r = Some (3 / 2)"
    by (simp add: preprocess_prices_crisis_carry)
  have m2: "?S ! 2 \<in> set ?S"
    by (simp add: suppressed_table_crisis_carry)
  have n2: "\<not> crisis_mask (date (?S ! 2))"
    by (simp add: suppressed_table_crisis_carry crisis_mask_def)
  have m3: "preprocess_prices table_2007 ! 0 \<in> set (preprocess_prices table_2007)"
    by (simp add: preprocess_prices_2007)
  have n3: "date (preprocess_prices table_2007 ! 0) < (2008, 1, 1)"
    by (simp add: preprocess_prices_2007)
  note inst = bounds_outside_crisis [of table_crisis_carry]
  from inst [THEN conjunct1, THEN bspec, OF m2] n2
  have a: "within_bounds (monthly_past_return (?S ! 2))"
    by blast
  from inst [THEN conjunct2, THEN conjunct1, THEN bspec, OF m1] n1
  have b: "\<exists>y. monthly_future_return ?r = Some y \<and> - 0.5 \<le> y \<and> y \<le> 1"
    and "\<exists>x. monthly_past_return ?r = Some x \<and>
         ((- 0.5 \<le> x \<and> x \<le> 1) \<or>
          (\<exists>i j. j < i \<and> i < length ?S \<and> ?r = filled_table table_crisis_carry ! i \<and>
              ticker (?S ! j) = ticker ?r \<and> crisis_mask (date (?S ! j)) \<and>
              date (?S ! j) \<le> date ?r \<and> monthly_past_return (?S ! j) = Some x \<and>
              (\<forall>m. j < m \<and> m \<le> i \<and> ticker (?S ! m) = ticker ?r \<longrightarrow>
                   monthly_past_return (?S ! m) = None)))"
    by blast+
  then obtain x where x: "monthly_past_return ?r = Some x"
    and alt: "(- 0.5 \<le> x \<and> x \<le> 1) \<or>
          (\<exists>i j. j < i \<and> i < length ?S \<and> ?r = filled_table table_crisis_carry ! i \<and>
              ticker (?S ! j) = ticker ?r \<and> crisis_mask (date (?S ! j)) \<and>
              date (?S ! j) \<le> date ?r \<and> monthly_past_return (?S ! j) = Some x \<and>
              (\<forall>m. j < m \<and> m \<le> i \<and> ticker (?S ! m) = ticker ?r \<longrightarrow>
                   monthly_past_return (?S ! m) = None))"
    by blast
  from x p1 have xv: "x = 3 / 2" by simp
  then have "\<not> (- 0.5 \<le> x \<and> x \<le> 1)" by simp
  with alt have c: "\<exists>i j. j < i \<and> i < length ?S \<and> ?r = filled_table table_crisis_carry ! i \<and>
              ticker (?S ! j) = ticker ?r \<and> crisis_mask (date (?S ! j)) \<and>
              date (?S ! j) \<le> date ?r \<and> monthly_past_return (?S ! j) = Some (3 / 2)"
    unfolding xv by blast
  from bounds_outside_crisis [of table_2007, THEN conjunct2, THEN conjunct2, THEN bspec, OF m3] n3
  have d: "\<exists>x. monthly_past_return (preprocess_prices table_2007 ! 0) = Some x \<and>
        - 0.5 \<le> x \<and> x \<le> 1"
    by blast
  from m1 n1 m2 n2 a b p1 c m3 n3 d show ?thesis by (intro conjI)
qed

section \<open>Backtest evaluator\<close>

lemma nansum_present:
  "nansum (map (\<lambda>r. Some (g r)) xs) = sum_list (map g xs)"
  by (induction xs) (simp_all add: nansum_def)

lemma sum_list_selected:
  "(\<Sum>r\<leftarrow>xs. (if P r then 1 else 0) * (f r :: real)) = sum_list (map f (filter P xs))"
  by (induction xs) simp_all

lemma map_of_series:
  "d \<in> set ds \<Longrightarrow> map_of (map (\<lambda>d. (d, g d)) ds) d = Some (g d)"
  by (induction ds) auto

lemma pnl_present:
  "monthly_future_return r = Some x \<Longrightarrow> pnl r = Some ((if signal r then 1 else 0) * x)"
  by (simp add: pnl_def)

text \<open>
  Claim C6. On a signalled table whose forward returns are all present (the rows without
  one are dropped by the preprocessing), the PnL of a record is its forward return if
  the record is selected and 0 if it is not; the strategy PnL of a month is the sum of
  the PnL of the records of that month; the divisor is the number of selected records of
  the month, and the strategy return of the month is the PnL divided by it (NaN, the
  float 0/0, for a month without selected record).
\<close>

theorem strategy_pnl_and_return_per_month:
  assumes fut: "\<forall>r \<in> set t. monthly_future_return r = Some (f r)"
    and d: "d \<in> date ` set t"
  shows "(\<forall>r \<in> set t. pnl r = Some ((if signal r then 1 else 0) * f r)) \<and>
    map_of (strategy_pnl_series t) d
      = Some (\<Sum>r\<leftarrow>filter (\<lambda>r. date r = d) t. (if signal r then 1 else 0) * f r) \<and>
    map_of (signal_sum t) d = Some (length (filter signal (filter (\<lambda>r. date r = d) t))) \<and>
    (length (filter signal (filter (\<lambda>r. date r = d) t)) \<noteq> 0 \<longrightarrow>
       map_of (strategy_returns t) d
         = Some (Some ((\<Sum>r\<leftarrow>filter (\<lambda>r. date r = d) t. (if signal r then 1 else 0) * f r)
                       / real (length (filter signal (filter (\<lambda>r. date r = d) t)))))) \<and>
    (length (filter signal (filter (\<lambda>r. date r = d) t)) = 0 \<longrightarrow>
       map_of (strategy_returns t) d = Some None)"
proof -
  have p: "\<forall>r \<in> set t. pnl r = Some ((if signal r then 1 else 0) * f r)"
    using fut by (simp add: pnl_present)
  have dd: "d \<in> set (group_dates t)" using d by simp
  have "map pnl (filter (\<lambda>r. date r = d) t)
      = map (\<lambda>r. Some ((if signal r then 1 else 0) * f r)) (filter (\<lambda>r. date r = d) t)"
    using p by simp
  then have s: "nansum (map pnl (filter (\<lambda>r. date r = d) t))
      = (\<Sum>r\<leftarrow>filter (\<lambda>r. date r = d) t. (if signal r then 1 else 0) * f r)"
    by (simp only: nansum_present)
  have a: "map_of (strategy_pnl_series t) d
      = Some (\<Sum>r\<leftarrow>filter (\<lambda>r. date r = d) t. (if signal r then 1 else 0) * f r)"
    unfolding strategy_pnl_series_def by (subst map_of_series [OF dd]) (simp add: s)
  have b: "map_of (signal_sum t) d = Some (length (filter signal (filter (\<lambda>r. date r = d) t)))"
    unfolding signal_sum_def by (subst map_of_series [OF dd]) simp
  have c: "map_of (strategy_returns t) d
         = Some (Some ((\<Sum>r\<leftarrow>filter (\<lambda>r. date r = d) t. (if signal r then 1 else 0) * f r)
                       / real (length (filter signal (filter (\<lambda>r. date r = d) t)))))"
    if "length (filter signal (filter (\<lambda>r. date r = d) t)) \<noteq> 0"
    unfolding strategy_returns_map using that by (subst map_of_series [OF dd]) (simp add: s)
  have e: "map_of (strategy_returns t) d = Some None"
    if "length (filter signal (filter (\<lambda>r. date r = d) t)) = 0"
    unfolding strategy_returns_map using that by (subst map_of_series [OF dd]) simp
  from p a b c e show ?thesis by blast
qed


lemma length_cumsum_from [simp]: "length (cumsum_from acc xs) = length xs"
  by (induction xs arbitrary: acc) auto

lemma cumsum_from_nth:
  "i < length xs \<Longrightarrow> cumsum_from acc xs ! i = acc + sum_list (take (Suc i) xs)"
proof (induction xs arbitrary: acc i)
  case Nil
  then show ?case by simp
next
  case (Cons x xs)
  show ?case
  proof (cases i)
    case 0
    then show ?thesis by simp
  next
    case (Suc j)
    with Cons.prems have "j < length xs" by simp
    from Cons.IH [OF this, of "acc + x"] Suc show ?thesis by simp
  qed
qed

lemma cumsum_nth: "i < length xs \<Longrightarrow> cumsum xs ! i = sum_list (take (Suc i) xs)"
  by (simp add: cumsum_def cumsum_from_nth)

lemma length_cumsum [simp]: "length (cumsum xs) = length xs"
  by (simp add: cumsum_def)

lemma last_cumsum: "xs \<noteq> [] \<Longrightarrow> last (cumsum xs) = sum_list xs"
proof -
  assume ne: "xs \<noteq> []"
  then have "cumsum xs \<noteq> []" by (metis length_cumsum length_0_conv)
  then have "last (cumsum xs) = cumsum xs ! (length xs - 1)"
    by (simp add: last_conv_nth)
  also have "\<dots> = sum_list (take (Suc (length xs - 1)) xs)"
    using ne by (intro cumsum_nth) simp
  also have "\<dots> = sum_list xs" using ne by simp
  finally show ?thesis .
qed

lemma iloc_last_cumsum:
  "xs \<noteq> [] \<Longrightarrow> iloc_last (cumsum xs) = Inr (sum_list xs)"
  using last_cumsum [of xs] by (auto simp: iloc_last_def dest: arg_cong [of _ _ length])

lemma loc_dates: "fst ` set (loc ds s) = set ds \<inter> fst ` set s"
  by (auto simp: loc_def image_iff)

lemma fst_strategy_pnl_series [simp]: "map fst (strategy_pnl_series t) = group_dates t"
  by (simp add: strategy_pnl_series_def comp_def)

lemma fst_strategy_returns [simp]: "map fst (strategy_returns t) = group_dates t"
  by (simp add: strategy_returns_map comp_def)

lemma fst_benchmark_pnl_series:
  "map fst (benchmark_pnl_series sp) = map fst (benchmark_returns sp)"
  by (simp add: benchmark_pnl_series_def sp500_signal_def zip_map_self comp_def case_prod_unfold)

lemma set_common_dates:
  "set (common_dates t sp) = fst ` set (strategy_returns t) \<inter> fst ` set (benchmark_returns sp)"
proof -
  have "set (common_dates t sp)
      = set (map fst (strategy_returns t)) \<inter> set (map fst (benchmark_returns sp))"
    unfolding common_dates_def by auto
  then show ?thesis by (simp only: set_map)
qed

lemma aligned_dates:
  "fst ` set (loc (common_dates t sp) (strategy_returns t)) = set (common_dates t sp)"
  "fst ` set (loc (common_dates t sp) (strategy_pnl_series t)) = set (common_dates t sp)"
  "fst ` set (loc (common_dates t sp) (benchmark_returns sp)) = set (common_dates t sp)"
  "fst ` set (loc (common_dates t sp) (benchmark_pnl_series sp)) = set (common_dates t sp)"
proof -
  have s1: "fst ` set (strategy_pnl_series t) = fst ` set (strategy_returns t)"
    using fst_strategy_pnl_series [of t] fst_strategy_returns [of t] by (metis set_map)
  have s2: "fst ` set (benchmark_pnl_series sp) = fst ` set (benchmark_returns sp)"
    using fst_benchmark_pnl_series [of sp] by (metis set_map)
  show "fst ` set (loc (common_dates t sp) (strategy_returns t)) = set (common_dates t sp)"
    unfolding loc_dates set_common_dates by blast
  show "fst ` set (loc (common_dates t sp) (strategy_pnl_series t)) = set (common_dates t sp)"
    unfolding loc_dates s1 set_common_dates by blast
  show "fst ` set (loc (common_dates t sp) (benchmark_returns sp)) = set (common_dates t sp)"
    unfolding loc_dates set_common_dates by blast
  show "fst ` set (loc (common_dates t sp) (benchmark_pnl_series sp)) = set (common_dates t sp)"
    unfolding loc_dates s2 set_common_dates by blast
qed

lemma aligned_nonempty:
  assumes "common_dates t sp \<noteq> []"
  shows "loc (common_dates t sp) (strategy_pnl_series t) \<noteq> []"
    and "loc (common_dates t sp) (benchmark_pnl_series sp) \<noteq> []"
proof -
  from assms have ne: "set (common_dates t sp) \<noteq> {}" by simp
  show "loc (common_dates t sp) (strategy_pnl_series t) \<noteq> []"
    using aligned_dates(2) [of t sp] ne by auto
  show "loc (common_dates t sp) (benchmark_pnl_series sp) \<noteq> []"
    using aligned_dates(4) [of t sp] ne by auto
qed

lemma backtest_empty_overlap:
  "common_dates t sp = [] \<Longrightarrow> backtest t sp = Inl IndexError"
  by (simp add: backtest_def Let_def loc_def cumsum_def iloc_last_def)

lemma loc_Nil [simp]: "loc [] s = []"
  by (simp add: loc_def)

lemma loc_Cons: "loc (d # ds) s = filter (\<lambda>x. fst x = d) s @ loc ds s"
  by (simp add: loc_def case_prod_unfold)

lemma sum_filter_split:
  assumes "\<forall>x \<in> set s. \<not> (P x \<and> Q x)"
  shows "sum_list (map g (filter P s)) + sum_list (map g (filter Q s))
           = (sum_list (map g (filter (\<lambda>x. P x \<or> Q x) s)) :: real)"
  using assms by (induction s) auto

lemma sum_loc:
  "distinct ds \<Longrightarrow>
   (sum_list (map g (loc ds s)) :: real) = sum_list (map g (filter (\<lambda>x. fst x \<in> set ds) s))"
proof (induction ds)
  case Nil
  then show ?case by simp
next
  case (Cons d ds)
  then have IH: "sum_list (map g (loc ds s)) = sum_list (map g (filter (\<lambda>x. fst x \<in> set ds) s))"
    and d: "d \<notin> set ds" by simp_all
  have "\<forall>x \<in> set s. \<not> (fst x = d \<and> fst x \<in> set ds)"
    using d by auto
  from sum_filter_split [OF this, of g] show ?case
    by (simp add: loc_Cons IH disj_commute eq_commute [of d])
qed

lemma loc_Cons_notin: "fst x \<notin> set ds \<Longrightarrow> loc ds (x # s) = loc ds s"
  by (induction ds) (auto simp: loc_Cons)

lemma loc_subsequence:
  "distinct (map fst s) \<Longrightarrow> loc (filter P (map fst s)) s = filter (\<lambda>x. P (fst x)) s"
proof (induction s)
  case Nil
  then show ?case by simp
next
  case (Cons x s)
  then have IH: "loc (filter P (map fst s)) s = filter (\<lambda>x. P (fst x)) s"
    and nx: "fst x \<notin> fst ` set s" by simp_all
  have notin: "fst x \<notin> set (filter P (map fst s))"
    using nx by auto
  have "\<forall>y \<in> set s. fst y \<noteq> fst x"
    using nx by (metis imageI)
  then have single: "filter (\<lambda>y. fst y = fst x) s = []"
    by (simp add: filter_empty_conv)
  show ?case
    by (simp add: loc_Cons loc_Cons_notin [OF notin] IH single)
qed

lemma nansum_as_sum:
  "nansum (map snd xs) = sum_list (map (\<lambda>x. case snd x of None \<Rightarrow> 0 | Some v \<Rightarrow> v) xs)"
  by (induction xs) (auto simp: nansum_def split: option.splits)

lemma distinct_common_dates: "distinct (common_dates t sp)"
  by (simp add: common_dates_def)

lemma set_common_months: "set (common_dates t sp) = common_months t sp"
  by (simp add: set_common_dates common_months_def)

lemma strategy_series_aligned:
  "loc (common_dates t sp) (strategy_pnl_series t)
     = filter (\<lambda>x. fst x \<in> common_months t sp) (strategy_pnl_series t)"
proof -
  let ?P = "\<lambda>d. d \<in> set (map fst (benchmark_returns sp))"
  have d: "distinct (map fst (strategy_pnl_series t))" by simp
  have "common_dates t sp = filter ?P (map fst (strategy_pnl_series t))"
    by (simp add: common_dates_def)
  then have "loc (common_dates t sp) (strategy_pnl_series t)
      = filter (\<lambda>x. ?P (fst x)) (strategy_pnl_series t)"
    using loc_subsequence [OF d, of ?P] by simp
  also have "\<dots> = filter (\<lambda>x. fst x \<in> common_months t sp) (strategy_pnl_series t)"
  proof (rule filter_cong [OF refl])
    fix x assume "x \<in> set (strategy_pnl_series t)"
    then have "fst x \<in> fst ` set (strategy_pnl_series t)" by (rule imageI)
    then have "fst x \<in> fst ` set (strategy_returns t)"
      by (metis fst_strategy_pnl_series fst_strategy_returns set_map)
    then show "?P (fst x) = (fst x \<in> common_months t sp)"
      by (simp add: common_months_def)
  qed
  finally show ?thesis .
qed

text \<open>
  Claim C7. When the strategy and the benchmark have a month in common, the backtest
  returns its totals, all taken over the months present in both series and no other:
  each total return is the sum of the returns of those months (a missing strategy return
  is skipped), the cumulative strategy PnL holds for each of those months in ascending
  order the running sum of the monthly PnL, each total PnL is the last value of the
  cumulative PnL, which is the sum of the monthly PnL, and the outperformance is the
  strategy total return minus the benchmark total return, times 100.
\<close>

theorem totals_over_common_months:
  assumes "common_months t sp \<noteq> {}"
  shows "\<exists>res. backtest t sp = Inr res \<and>
      strategy_total_return res
        = nansum (map snd (filter (\<lambda>x. fst x \<in> common_months t sp) (strategy_returns t))) \<and>
      benchmark_total_return res
        = sum_list (map snd (filter (\<lambda>x. fst x \<in> common_months t sp) (benchmark_returns sp))) \<and>
      length (strategy_cumulative_pnl res)
        = length (filter (\<lambda>x. fst x \<in> common_months t sp) (strategy_pnl_series t)) \<and>
      (\<forall>i < length (strategy_cumulative_pnl res).
         strategy_cumulative_pnl res ! i
           = sum_list (take (Suc i)
               (map snd (filter (\<lambda>x. fst x \<in> common_months t sp) (strategy_pnl_series t))))) \<and>
      strategy_total_pnl res = last (strategy_cumulative_pnl res) \<and>
      strategy_total_pnl res
        = sum_list (map snd (filter (\<lambda>x. fst x \<in> common_months t sp) (strategy_pnl_series t))) \<and>
      benchmark_total_pnl res = last (benchmark_cumulative_pnl res) \<and>
      benchmark_total_pnl res
        = sum_list (map snd (filter (\<lambda>x. fst x \<in> common_months t sp) (benchmark_pnl_series sp))) \<and>
      outperformance_percent res = (strategy_total_return res - benchmark_total_return res) * 100"
proof -
  define C where "C = common_months t sp"
  define sp_pnl where "sp_pnl = map snd (loc (common_dates t sp) (strategy_pnl_series t))"
  define bm_pnl where "bm_pnl = map snd (loc (common_dates t sp) (benchmark_pnl_series sp))"
  have cne: "common_dates t sp \<noteq> []"
    using assms set_common_months [of t sp] by auto
  have ne: "sp_pnl \<noteq> []" "bm_pnl \<noteq> []"
    using aligned_nonempty [OF cne] by (simp_all add: sp_pnl_def bm_pnl_def)
  have il: "iloc_last (cumsum sp_pnl) = Inr (sum_list sp_pnl)"
    "iloc_last (cumsum bm_pnl) = Inr (sum_list bm_pnl)"
    using ne by (simp_all add: iloc_last_cumsum)
  have la: "last (cumsum sp_pnl) = sum_list sp_pnl" "last (cumsum bm_pnl) = sum_list bm_pnl"
    using ne by (simp_all add: last_cumsum)
  have bt: "backtest t sp =
      Inr \<lparr>strategy_total_return = nansum (map snd (loc (common_dates t sp) (strategy_returns t))),
           strategy_total_pnl = sum_list sp_pnl,
           benchmark_total_return = sum_list (map snd (loc (common_dates t sp) (benchmark_returns sp))),
           benchmark_total_pnl = sum_list bm_pnl,
           outperformance_percent =
             (nansum (map snd (loc (common_dates t sp) (strategy_returns t)))
              - sum_list (map snd (loc (common_dates t sp) (benchmark_returns sp)))) * 100,
           strategy_cumulative_pnl = cumsum sp_pnl,
           benchmark_cumulative_pnl = cumsum bm_pnl\<rparr>"
    unfolding backtest_def Let_def sp_pnl_def [symmetric] bm_pnl_def [symmetric] il by simp
  have sums: "(sum_list (map g (loc (common_dates t sp) s)) :: real)
      = sum_list (map g (filter (\<lambda>x. fst x \<in> C) s))" for g and s :: "(date \<times> 'a) list"
    using sum_loc [OF distinct_common_dates, of g t sp s]
    by (simp add: set_common_months C_def)
  have r1: "nansum (map snd (loc (common_dates t sp) (strategy_returns t)))
      = nansum (map snd (filter (\<lambda>x. fst x \<in> C) (strategy_returns t)))"
    unfolding nansum_as_sum by (rule sums)
  have r2: "sum_list (map snd (loc (common_dates t sp) (benchmark_returns sp)))
      = sum_list (map snd (filter (\<lambda>x. fst x \<in> C) (benchmark_returns sp)))"
    by (rule sums)
  have r3: "sum_list bm_pnl = sum_list (map snd (filter (\<lambda>x. fst x \<in> C) (benchmark_pnl_series sp)))"
    unfolding bm_pnl_def by (rule sums)
  have r4: "sp_pnl = map snd (filter (\<lambda>x. fst x \<in> C) (strategy_pnl_series t))"
    unfolding sp_pnl_def C_def by (simp add: strategy_series_aligned)
  have r5: "\<forall>i < length (cumsum sp_pnl). cumsum sp_pnl ! i = sum_list (take (Suc i) sp_pnl)"
    by (simp add: cumsum_nth)
  have r6: "length (cumsum sp_pnl) = length (filter (\<lambda>x. fst x \<in> C) (strategy_pnl_series t))"
    by (simp add: r4)
  show ?thesis
    unfolding bt C_def [symmetric]
    using la r1 r2 r3 r5 r6 unfolding r4 by simp
qed


lemmas eval_backtest = strategy_returns_def strategy_pnl_series_def signal_sum_def group_dates_def
  pnl_def nansum_def benchmark_returns_def benchmark_pnl_series_def sp500_signal_def
  common_dates_def loc_def cumsum_def iloc_last_def

lemma common_months_example:
  "common_months table_signalled table_sp500 = {(2020, 1, 31), (2020, 2, 29)}"
  unfolding set_common_months [symmetric]
  by (simp add: table_signalled_def table_sp500_def signalled_def eval_backtest)

lemma backtest_example:
  "backtest table_signalled table_sp500 =
     Inr \<lparr>strategy_total_return = 13 / 100, strategy_total_pnl = 4 / 25,
          benchmark_total_return = 1 / 100, benchmark_total_pnl = 1 / 5,
          outperformance_percent = 12,
          strategy_cumulative_pnl = [1 / 10, 4 / 25],
          benchmark_cumulative_pnl = [2 / 5, 1 / 5]\<rparr>"
  by (simp add: backtest_def Let_def table_signalled_def table_sp500_def signalled_def eval_backtest)

theorem totals_over_common_months_witness:
  "common_months table_signalled table_sp500 = {(2020, 1, 31), (2020, 2, 29)} \<and>
   common_months table_signalled table_sp500 \<noteq> {} \<and>
   (\<exists>res. backtest table_signalled table_sp500 = Inr res \<and>
      strategy_total_return res = 13 / 100 \<and> benchmark_total_return res = 1 / 100 \<and>
      strategy_cumulative_pnl res = [1 / 10, 4 / 25] \<and>
      strategy_total_pnl res = 4 / 25 \<and> benchmark_total_pnl res = 1 / 5 \<and>
      strategy_total_pnl res = last (strategy_cumulative_pnl res) \<and>
      benchmark_total_pnl res = last (benchmark_cumulative_pnl res) \<and>
      outperformance_percent res = (strategy_total_return res - benchmark_total_return res) * 100)"
proof -
  have ne: "common_months table_signalled table_sp500 \<noteq> {}"
    by (simp add: common_months_example)
  from totals_over_common_months [OF ne] obtain res where
    res: "backtest table_signalled table_sp500 = Inr res"
      "strategy_total_pnl res = last (strategy_cumulative_pnl res)"
      "benchmark_total_pnl res = last (benchmark_cumulative_pnl res)"
      "outperformance_percent res = (strategy_total_return res - benchmark_total_return res) * 100"
    by blast
  from res(1) have v: "strategy_total_return res = 13 / 100" "benchmark_total_return res = 1 / 100"
    "strategy_cumulative_pnl res = [1 / 10, 4 / 25]"
    "strategy_total_pnl res = 4 / 25" "benchmark_total_pnl res = 1 / 5"
    unfolding backtest_example by auto
  from res v have "\<exists>res. backtest table_signalled table_sp500 = Inr res \<and>
      strategy_total_return res = 13 / 100 \<and> benchmark_total_return res = 1 / 100 \<and>
      strategy_cumulative_pnl res = [1 / 10, 4 / 25] \<and>
      strategy_total_pnl res = 4 / 25 \<and> benchmark_total_pnl res = 1 / 5 \<and>
      strategy_total_pnl res = last (strategy_cumulative_pnl res) \<and>
      benchmark_total_pnl res = last (benchmark_cumulative_pnl res) \<and>
      outperformance_percent res = (strategy_total_return res - benchmark_total_return res) * 100"
    by (intro exI [of _ res] conjI)
  with common_months_example ne show ?thesis by (intro conjI)
qed

theorem strategy_pnl_and_return_per_month_witness:
  "(2020, 2, 29) \<in> date ` set table_signalled \<and>
   length (filter signal (filter (\<lambda>r. date r = (2020, 2, 29)) table_signalled)) = 2 \<and>
   map_of (strategy_pnl_series table_signalled) (2020, 2, 29) = Some (3 / 50) \<and>
   map_of (strategy_returns table_signalled) (2020, 2, 29) = Some (Some (3 / 100)) \<and>
   monthly_future_return (table_signalled ! 1) = Some (- (1 / 5)) \<and>
   pnl (table_signalled ! 1) = Some 0 \<and>
   monthly_future_return (table_signalled ! 2) = Some (1 / 25) \<and>
   pnl (table_signalled ! 2) = Some (1 / 25) \<and>
   length (filter signal (filter (\<lambda>r. date r = (2020, 1, 31))
     [signalled (2020, 1, 31) ''B'' (- (1 / 5)) False])) = 0 \<and>
   map_of (strategy_pnl_series [signalled (2020, 1, 31) ''B'' (- (1 / 5)) False]) (2020, 1, 31)
     = Some 0 \<and>
   map_of (strategy_returns [signalled (2020, 1, 31) ''B'' (- (1 / 5)) False]) (2020, 1, 31)
     = Some None"
proof -
  define f where "f = (\<lambda>r::signal_row. case monthly_future_return r of Some x \<Rightarrow> x | None \<Rightarrow> 0)"
  have fut: "\<forall>r \<in> set table_signalled. monthly_future_return r = Some (f r)"
    by (simp add: table_signalled_def signalled_def f_def)
  have d: "(2020, 2, 29) \<in> date ` set table_signalled"
    by (simp add: table_signalled_def signalled_def)
  have n: "length (filter signal (filter (\<lambda>r. date r = (2020, 2, 29)) table_signalled)) = 2"
    by (simp add: table_signalled_def signalled_def)
  have m: "table_signalled ! 1 \<in> set table_signalled" "table_signalled ! 2 \<in> set table_signalled"
    by (simp_all add: table_signalled_def)
  have s: "(\<Sum>r\<leftarrow>filter (\<lambda>r. date r = (2020, 2, 29)) table_signalled.
              (if signal r then 1 else 0) * f r) = 3 / 50"
    by (simp add: table_signalled_def signalled_def f_def)
  have f1: "(if signal (table_signalled ! 1) then 1 else 0) * f (table_signalled ! 1) = 0"
    "(if signal (table_signalled ! 2) then 1 else 0) * f (table_signalled ! 2) = 1 / 25"
    by (simp_all add: table_signalled_def signalled_def f_def)
  have fv: "monthly_future_return (table_signalled ! 1) = Some (- (1 / 5))"
    "monthly_future_return (table_signalled ! 2) = Some (1 / 25)"
    by (simp_all add: table_signalled_def signalled_def)
  note inst = strategy_pnl_and_return_per_month [OF fut d]
  from inst [THEN conjunct1, THEN bspec, OF m(1)]
  have p1: "pnl (table_signalled ! 1) = Some 0"
    unfolding f1 .
  from inst [THEN conjunct1, THEN bspec, OF m(2)]
  have p2: "pnl (table_signalled ! 2) = Some (1 / 25)"
    unfolding f1 .
  from inst [THEN conjunct2, THEN conjunct1]
  have a: "map_of (strategy_pnl_series table_signalled) (2020, 2, 29) = Some (3 / 50)"
    unfolding s .
  from inst [THEN conjunct2, THEN conjunct2, THEN conjunct2, THEN conjunct1]
  have "2 \<noteq> (0::nat) \<longrightarrow>
      map_of (strategy_returns table_signalled) (2020, 2, 29) = Some (Some (3 / 50 / real (2::nat)))"
    unfolding s n .
  then have b: "map_of (strategy_returns table_signalled) (2020, 2, 29) = Some (Some (3 / 100))"
    by simp
  define t0 where "t0 = [signalled (2020, 1, 31) ''B'' (- (1 / 5)) False]"
  have fut0: "\<forall>r \<in> set t0. monthly_future_return r = Some (f r)"
    by (simp add: t0_def signalled_def f_def)
  have d0: "(2020, 1, 31) \<in> date ` set t0"
    by (simp add: t0_def signalled_def)
  have n0: "length (filter signal (filter (\<lambda>r. date r = (2020, 1, 31)) t0)) = 0"
    by (simp add: t0_def signalled_def)
  have s0: "(\<Sum>r\<leftarrow>filter (\<lambda>r. date r = (2020, 1, 31)) t0.
              (if signal r then 1 else 0) * f r) = 0"
    by (simp add: t0_def signalled_def f_def)
  note inst0 = strategy_pnl_and_return_per_month [OF fut0 d0]
  from inst0 [THEN conjunct2, THEN conjunct1]
  have a0: "map_of (strategy_pnl_series t0) (2020, 1, 31) = Some 0"
    unfolding s0 .
  from inst0 [THEN conjunct2, THEN conjunct2, THEN conjunct2, THEN conjunct2] n0
  have b0: "map_of (strategy_returns t0) (2020, 1, 31) = Some None"
    by (rule mp)
  from d n a b fv(1) p1 fv(2) p2 n0 a0 b0 show ?thesis
    unfolding t0_def by (intro conjI)
qed

end
